theory Spec2Isabelle
  imports Main
begin

section \<open>Strings of the inspected program\<close>

text \<open>
  The inspection engine (\<^verbatim>\<open>src/inspection.ts\<close>) works on JavaScript strings. A string is
  modelled as a \<^typ>\<open>string\<close>, each \<^typ>\<open>char\<close> standing for one code unit with a code
  below 256, so \<^const>\<open>length\<close> is the \<^verbatim>\<open>.length\<close> of the source for such strings.
  The library functions of the source (\<^verbatim>\<open>trim\<close>, \<^verbatim>\<open>toLowerCase\<close>, \<^verbatim>\<open>endsWith\<close>,
  \<^verbatim>\<open>split\<close>, \<^verbatim>\<open>JSON.stringify\<close>, the class \<^verbatim>\<open>\s\<close>) are modelled on that range.
\<close>

definition inRange :: "char \<Rightarrow> char \<Rightarrow> char \<Rightarrow> bool" where
  "inRange lo hi c = (of_char lo \<le> (of_char c :: nat) \<and> (of_char c :: nat) \<le> of_char hi)"

text \<open>The class \<^verbatim>\<open>\s\<close> and the characters removed by \<^verbatim>\<open>trim()\<close>, below code 256.\<close>

definition isSpace :: "char \<Rightarrow> bool" where
  "isSpace c = (inRange (CHR 0x09) (CHR 0x0D) c \<or> c = CHR 0x20 \<or> c = CHR 0xA0)"

definition trim :: "string \<Rightarrow> string" where
  "trim s = rev (dropWhile isSpace (rev (dropWhile isSpace s)))"

definition toLowerChar :: "char \<Rightarrow> char" where
  "toLowerChar c =
     (if inRange (CHR ''A'') (CHR ''Z'') c \<or> inRange (CHR 0xC0) (CHR 0xD6) c
         \<or> inRange (CHR 0xD8) (CHR 0xDE) c
      then char_of (of_char c + (32::nat)) else c)"

definition toLowerCase :: "string \<Rightarrow> string" where
  "toLowerCase s = map toLowerChar s"

definition endsWith :: "string \<Rightarrow> string \<Rightarrow> bool" where
  "endsWith s t = (length t \<le> length s \<and> drop (length s - length t) s = t)"

definition startsWith :: "string \<Rightarrow> string \<Rightarrow> bool" where
  "startsWith s t = (take (length t) s = t)"

text \<open>\<^verbatim>\<open>s.split(sep)\<close> for a one-character separator: never the empty array.\<close>

fun splitOn :: "char \<Rightarrow> string \<Rightarrow> string list" where
  "splitOn sep [] = [[]]"
| "splitOn sep (c # cs) =
     (if c = sep then [] # splitOn sep cs
      else (case splitOn sep cs of
              l # ls \<Rightarrow> (c # l) # ls
            | [] \<Rightarrow> [[c]]))"

text \<open>Template-literal rendering of a number, in decimal.\<close>

definition digit :: "nat \<Rightarrow> char" where
  "digit d = ''0123456789'' ! d"

fun showNat :: "nat \<Rightarrow> string" where
  "showNat n = (if n < 10 then [digit n] else showNat (n div 10) @ [digit (n mod 10)])"

declare showNat.simps [simp del]

text \<open>\<^verbatim>\<open>JSON.stringify\<close> of a string: quotes, the two-character escapes, and
  \<^verbatim>\<open>\u00XX\<close> for the other control characters.\<close>

definition hexDigit :: "nat \<Rightarrow> char" where
  "hexDigit d = ''0123456789abcdef'' ! d"

definition quoteJSONChar :: "char \<Rightarrow> string" where
  "quoteJSONChar c =
     (if c = CHR 0x08 then [CHR 0x5C, CHR ''b'']
      else if c = CHR 0x09 then [CHR 0x5C, CHR ''t'']
      else if c = CHR 0x0A then [CHR 0x5C, CHR ''n'']
      else if c = CHR 0x0C then [CHR 0x5C, CHR ''f'']
      else if c = CHR 0x0D then [CHR 0x5C, CHR ''r'']
      else if c = CHR 0x22 then [CHR 0x5C, CHR 0x22]
      else if c = CHR 0x5C then [CHR 0x5C, CHR 0x5C]
      else if (of_char c :: nat) < 32
        then [CHR 0x5C, CHR ''u'', CHR ''0'', CHR ''0'',
              hexDigit (of_char c div 16), hexDigit (of_char c mod 16)]
      else [c])"

definition JSON_stringify :: "string \<Rightarrow> string" where
  "JSON_stringify s = [CHR 0x22] @ concat (map quoteJSONChar s) @ [CHR 0x22]"

section \<open>Regular expressions\<close>

text \<open>
  Every pattern of the source is a sequence of anchors, group parentheses and character
  classes with an optional quantifier. A pattern is the list of these nodes, in the order
  in which the source writes them. The matcher is the backtracking one of JavaScript:
  quantifiers are greedy and give characters back when the rest of the pattern fails.
\<close>

datatype quant = One | Opt | Star | Plus

datatype node = Bol | Eol | Open | Close | Ch "char \<Rightarrow> bool" quant

definition lit :: "string \<Rightarrow> node list" where
  "lit s = map (\<lambda>c. Ch ((=) c) One) s"

text \<open>
  \<open>matchHere nodes atStart s\<close> matches the pattern at the front of \<open>s\<close>; \<open>atStart\<close> says
  that the front of \<open>s\<close> is the start of the input. The result lists, node by node, the
  text each node has consumed.
\<close>

fun matchHere :: "node list \<Rightarrow> bool \<Rightarrow> string \<Rightarrow> string list option" where
  "matchHere [] b s = Some []"
| "matchHere (Bol # r) b s =
     (if b then map_option ((#) []) (matchHere r b s) else None)"
| "matchHere (Eol # r) b s =
     (if s = [] then map_option ((#) []) (matchHere r b s) else None)"
| "matchHere (Open # r) b s = map_option ((#) []) (matchHere r b s)"
| "matchHere (Close # r) b s = map_option ((#) []) (matchHere r b s)"
| "matchHere (Ch c One # r) b [] = None"
| "matchHere (Ch c One # r) b (x # xs) =
     (if c x then map_option ((#) [x]) (matchHere r False xs) else None)"
| "matchHere (Ch c Opt # r) b [] = map_option ((#) []) (matchHere r b [])"
| "matchHere (Ch c Opt # r) b (x # xs) =
     (if c x then
        (case matchHere r False xs of
           Some ps \<Rightarrow> Some ([x] # ps)
         | None \<Rightarrow> map_option ((#) []) (matchHere r b (x # xs)))
      else map_option ((#) []) (matchHere r b (x # xs)))"
| "matchHere (Ch c Star # r) b [] = map_option ((#) []) (matchHere r b [])"
| "matchHere (Ch c Star # r) b (x # xs) =
     (if c x then
        (case matchHere (Ch c Star # r) False xs of
           Some ps \<Rightarrow> Some ((x # hd ps) # tl ps)
         | None \<Rightarrow> map_option ((#) []) (matchHere r b (x # xs)))
      else map_option ((#) []) (matchHere r b (x # xs)))"
| "matchHere (Ch c Plus # r) b [] = None"
| "matchHere (Ch c Plus # r) b (x # xs) =
     (if c x then
        (case matchHere (Ch c Star # r) False xs of
           Some ps \<Rightarrow> Some ((x # hd ps) # tl ps)
         | None \<Rightarrow> None)
      else None)"

text \<open>The leftmost match: the start positions are tried from 0 onward.\<close>

fun search :: "node list \<Rightarrow> bool \<Rightarrow> string \<Rightarrow> (nat \<times> string list) option" where
  "search nodes b [] = map_option (Pair 0) (matchHere nodes b [])"
| "search nodes b (x # xs) =
     (case matchHere nodes b (x # xs) of
        Some ps \<Rightarrow> Some (0, ps)
      | None \<Rightarrow> map_option (\<lambda>(i, ps). (Suc i, ps)) (search nodes False xs))"

text \<open>The text of each parenthesised group, in the order of the opening parentheses.\<close>

fun untilClose :: "node list \<Rightarrow> string list \<Rightarrow> string" where
  "untilClose (Close # ns) ps = []"
| "untilClose (n # ns) (p # ps) = p @ untilClose ns ps"
| "untilClose ns ps = []"

fun captures :: "node list \<Rightarrow> string list \<Rightarrow> string list" where
  "captures (Open # ns) (p # ps) = untilClose ns ps # captures ns ps"
| "captures (n # ns) (p # ps) = captures ns ps"
| "captures ns ps = []"

text \<open>\<^verbatim>\<open>re.exec(s)\<close>: the match array (whole match, then the groups) or null.\<close>

definition exec :: "node list \<Rightarrow> string \<Rightarrow> string list option" where
  "exec re s = map_option (\<lambda>(i, ps). concat ps # captures re ps) (search re True s)"

definition test :: "node list \<Rightarrow> string \<Rightarrow> bool" where
  "test re s = (exec re s \<noteq> None)"

text \<open>\<^verbatim>\<open>s.replace(re, '')\<close>: the leftmost match is cut out.\<close>

definition replace :: "node list \<Rightarrow> string \<Rightarrow> string" where
  "replace re s =
     (case search re True s of
        None \<Rightarrow> s
      | Some (i, ps) \<Rightarrow> take i s @ drop (i + length (concat ps)) s)"

section \<open>The inspection engine\<close>

record SubjectBody =
  subject :: string
  bodyLines :: "string list"

record MaybeSubjectBody =
  subjectBody :: "SubjectBody option"
  errors :: "string list"

text \<open>What the source throws.\<close>

datatype defect =
    EmptyAdditionalVerb
  | NotLowerCaseVerb string
  | NoGroupMatched
  | UndefinedSubjectBody
  | ErrorEndingInNewLine string

definition splitLines :: "string \<Rightarrow> string list" where
  "splitLines message =
     map (replace [Ch ((=) (CHR 0x0D)) One, Eol]) (splitOn (CHR 0x0A) message)"

definition fewLinesError :: "nat \<Rightarrow> string" where
  "fewLinesError n =
     ''Expected at least three lines (subject, empty, body), '' @
     ''but got: '' @ showNat n"

definition fewLinesMultiError :: "nat \<Rightarrow> string" where
  "fewLinesMultiError n =
     ''Expected at least three lines (subject, empty, body) '' @
     ''in a multi-line message, but got: '' @ showNat n"

definition separatorError :: "nat \<Rightarrow> string" where
  "separatorError n =
     ''Expected an empty line between the subject and the body, '' @
     ''but got a second line of length: '' @ showNat n"

definition splitSubjectBody :: "string list \<Rightarrow> MaybeSubjectBody" where
  "splitSubjectBody lines =
     (if length lines = 0 \<or> length lines = 1 then
        \<lparr>subjectBody = None, errors = [fewLinesError (length lines)]\<rparr>
      else if length lines = 2 then
        \<lparr>subjectBody = None, errors = [fewLinesMultiError (length lines)]\<rparr>
      else
        \<lparr>subjectBody = Some \<lparr>subject = lines ! 0, bodyLines = drop 2 lines\<rparr>,
         errors =
           (if length (lines ! 1) \<noteq> 0 then [separatorError (length (lines ! 1))]
            else [])\<rparr>)"

definition isUpper :: "char \<Rightarrow> bool" where
  "isUpper = inRange (CHR ''A'') (CHR ''Z'')"

definition isLower :: "char \<Rightarrow> bool" where
  "isLower = inRange (CHR ''a'') (CHR ''z'')"

definition isDigit :: "char \<Rightarrow> bool" where
  "isDigit = inRange (CHR ''0'') (CHR ''9'')"

definition capitalizedWordRe :: "node list" where
  "capitalizedWordRe =
     [Bol, Open, Ch isUpper One, Ch isLower Star, Close,
      Ch (\<lambda>c. \<not> (isLower c \<or> isUpper c)) One]"

definition suffixHashCodeRe :: "node list" where
  "suffixHashCodeRe =
     [Ch isSpace Opt, Ch ((=) (CHR ''('')) One, Ch isSpace Star, Ch ((=) (CHR ''#'')) One,
      Ch (\<lambda>c. isLower c \<or> isUpper c \<or> c = CHR ''_'' \<or> isDigit c) Plus,
      Ch isSpace Star, Ch ((=) (CHR '')'')) One, Eol]"

text \<open>The loop over the additional verbs at the head of \<^verbatim>\<open>checkSubject\<close>.\<close>

fun verbsPrecondition :: "string list \<Rightarrow> defect option" where
  "verbsPrecondition [] = None"
| "verbsPrecondition (verb # verbs) =
     (if length verb = 0 then Some EmptyAdditionalVerb
      else if verb \<noteq> toLowerCase verb then Some (NotLowerCaseVerb verb)
      else verbsPrecondition verbs)"

definition subjectLengthError :: "string \<Rightarrow> string \<Rightarrow> string" where
  "subjectLengthError subj subjectWoCode =
     ''The subject exceeds the limit of 50 characters '' @
     ''(got: '' @ showNat (length subj) @ '', JSONified: '' @
     JSON_stringify subjectWoCode @ '')''"

definition capitalizedVerbError :: string where
  "capitalizedVerbError =
     ''The subject must start with a capitalized verb (e.g., '' @ [CHR 0x22] @
     ''Change'' @ [CHR 0x22] @ '').''"

definition imperativeError :: "string \<Rightarrow> string" where
  "imperativeError word =
     ''The subject must start in imperative mood with one of the '' @
     ''most frequent English verbs, but got: '' @ JSON_stringify word @ ''. '' @
     ''Please see '' @
     ''https://github.com/mristin/opinionated-commit-message/blob/master/'' @
     ''src/mostFrequentEnglishVerbs.ts '' @
     ''for a complete list.''"

definition imperativeErrorAdditional :: "string \<Rightarrow> string" where
  "imperativeErrorAdditional word =
     ''The subject must start in imperative mood with one of the '' @
     ''most frequent English verbs, but got: '' @ JSON_stringify word @ ''. '' @
     ''Please see '' @
     ''https://github.com/mristin/opinionated-commit-message/blob/master/'' @
     ''src/mostFrequentEnglishVerbs.ts '' @
     ''for a complete list and '' @
     ''also revisit your list of additional verbs.''"

definition trailingDotError :: string where
  "trailingDotError = ''The subject must not end with a dot ('' @ [CHR 0x27] @ ''.'' @
     [CHR 0x27] @ '').''"

text \<open>
  \<^verbatim>\<open>checkSubject\<close>. The table \<^verbatim>\<open>mostFrequentEnglishVerbs.SET\<close> is not among the
  sources; it is the parameter \<open>SET\<close>. The set of additional verbs is the list of its
  members in iteration order.
\<close>

definition checkSubject :: "string set \<Rightarrow> string \<Rightarrow> string list \<Rightarrow> defect + string list" where
  "checkSubject SET subj additionalVerbs =
     (case verbsPrecondition additionalVerbs of
        Some d \<Rightarrow> Inl d
      | None \<Rightarrow>
         (let errs0 = [];
              subjectWoCode = replace suffixHashCodeRe subj;
              errs1 = (if length subjectWoCode > 50
                       then errs0 @ [subjectLengthError subj subjectWoCode] else errs0);
              match = exec capitalizedWordRe subjectWoCode
          in case
               (case match of
                  None \<Rightarrow> Inr (errs1 @ [capitalizedVerbError])
                | Some m \<Rightarrow>
                    if length m < 2 then Inl NoGroupMatched
                    else
                      (let word = m ! 1 in
                       if toLowerCase word \<notin> SET \<and> toLowerCase word \<notin> set additionalVerbs
                       then
                         (if additionalVerbs = []
                          then Inr (errs1 @ [imperativeError word])
                          else Inr (errs1 @ [imperativeErrorAdditional word]))
                       else Inr errs1))
             of
               Inl d \<Rightarrow> Inl d
             | Inr errs2 \<Rightarrow>
                 Inr (if endsWith subjectWoCode ''.''
                      then errs2 @ [trailingDotError] else errs2)))"

definition notSpace :: "char \<Rightarrow> bool" where
  "notSpace c = (c \<noteq> CHR '' '')"

definition urlLineRe :: "node list" where
  "urlLineRe = [Bol, Ch notSpace Plus] @ lit ''://'' @ [Ch notSpace Plus, Eol]"

definition linkDefinitionRe :: "node list" where
  "linkDefinitionRe =
     [Bol, Ch ((=) (CHR ''['')) One, Ch (\<lambda>c. c \<noteq> CHR '']'') Plus, Ch ((=) (CHR '']'')) One,
      Ch isSpace Star, Ch ((=) (CHR '':'')) One, Ch isSpace Star, Ch notSpace Plus] @
     lit ''://'' @ [Ch notSpace Plus, Eol]"

definition bodyLineError :: "nat \<Rightarrow> string \<Rightarrow> string" where
  "bodyLineError i line =
     ''The line '' @ showNat (i + 3) @ '' of the message (line '' @ showNat (i + 1) @
     '' of the body) '' @
     ''exceeds the limit of 72 characters. '' @
     ''The line contains '' @ showNat (length line) @ '' characters: '' @
     JSON_stringify line @ ''.''"

text \<open>The loop over \<^verbatim>\<open>bodyLines.entries()\<close>, from index \<open>i\<close> on.\<close>

fun bodyLoop :: "nat \<Rightarrow> string list \<Rightarrow> string list \<Rightarrow> string list" where
  "bodyLoop i [] errs = errs"
| "bodyLoop i (line # rest) errs =
     (if test urlLineRe line \<or> test linkDefinitionRe line then bodyLoop (i + 1) rest errs
      else if length line > 72 then bodyLoop (i + 1) rest (errs @ [bodyLineError i line])
      else bodyLoop (i + 1) rest errs)"

definition duplicateWordError :: "string \<Rightarrow> string" where
  "duplicateWordError subjectFirstWord =
     ''The first word of the subject '' @
     ''('' @ JSON_stringify subjectFirstWord @ '') '' @
     ''must not match '' @
     ''the first word of the body.''"

definition emptyBodyError :: string where
  "emptyBodyError = ''At least one line is expected in the body, but got empty body.''"

definition unexpectedEmptyBodyError :: string where
  "unexpectedEmptyBodyError = ''Unexpected empty body''"

definition checkBody :: "string \<Rightarrow> string list \<Rightarrow> string list" where
  "checkBody subj bodyLs =
     (if length bodyLs = 0 then [emptyBodyError]
      else if length bodyLs = 1 \<and> trim (bodyLs ! 0) = [] then [unexpectedEmptyBodyError]
      else
        (let errs1 = bodyLoop 0 bodyLs [] in
         case exec capitalizedWordRe (bodyLs ! 0) of
           None \<Rightarrow> errs1
         | Some bodyFirstWordMatch \<Rightarrow>
             (let bodyFirstWord = bodyFirstWordMatch ! 1 in
              case exec capitalizedWordRe subj of
                None \<Rightarrow> errs1
              | Some subjectFirstWordMatch \<Rightarrow>
                  if length subjectFirstWordMatch > 0 then
                    (let subjectFirstWord = subjectFirstWordMatch ! 1 in
                     if toLowerCase subjectFirstWord = toLowerCase bodyFirstWord
                     then errs1 @ [duplicateWordError subjectFirstWord]
                     else errs1)
                  else errs1)))"

definition refChar :: "char \<Rightarrow> bool" where
  "refChar c =
     (\<not> (inRange (CHR 0x00) (CHR 0x1F) c \<or> c = CHR 0x7F \<or> c = CHR '' '' \<or> c = CHR ''~''
         \<or> c = CHR ''^'' \<or> c = CHR '':'' \<or> c = CHR ''?'' \<or> c = CHR ''*'' \<or> c = CHR ''[''))"

definition mergeMessageRe :: "node list" where
  "mergeMessageRe =
     [Bol] @ lit (''Merge branch '' @ [CHR 0x27]) @ [Ch refChar Plus] @
     lit ([CHR 0x27] @ '' '') @
     lit ''into '' @ [Ch refChar Plus, Eol]"

text \<open>The loop of the post-condition.\<close>

fun postCondition :: "string list \<Rightarrow> defect option" where
  "postCondition [] = None"
| "postCondition (e # es) =
     (if endsWith e [CHR 0x0A] then Some (ErrorEndingInNewLine e) else postCondition es)"

definition emptyMessageError :: string where
  "emptyMessageError = ''The message is empty.''"

definition finish :: "string list \<Rightarrow> defect + string list" where
  "finish errs = (case postCondition errs of Some d \<Rightarrow> Inl d | None \<Rightarrow> Inr errs)"

definition check :: "string set \<Rightarrow> string \<Rightarrow> string list \<Rightarrow> bool \<Rightarrow> defect + string list" where
  "check SET message additionalVerbs allowOneLiners =
     (if test mergeMessageRe message then Inr []
      else
        (let lines = splitLines message in
         if length lines = 0 then Inr [emptyMessageError]
         else if length lines = 1 \<and> allowOneLiners then
           (case checkSubject SET (lines ! 0) additionalVerbs of
              Inl d \<Rightarrow> Inl d
            | Inr es \<Rightarrow> finish es)
         else
           (let maybeSubjectBody = splitSubjectBody lines in
            if length (errors maybeSubjectBody) > 0 then finish (errors maybeSubjectBody)
            else
              (case subjectBody maybeSubjectBody of
                 None \<Rightarrow> Inl UndefinedSubjectBody
               | Some sb \<Rightarrow>
                   (case checkSubject SET (subject sb) additionalVerbs of
                      Inl d \<Rightarrow> Inl d
                    | Inr es \<Rightarrow> finish (es @ checkBody (subject sb) (bodyLines sb)))))))"

section \<open>What a match is\<close>

text \<open>
  The declarative reading of a pattern, used to reason about the matcher: \<open>fits nodes b ps s\<close>
  says that the pieces \<open>ps\<close>, one per node, are consecutive parts of the front of \<open>s\<close> and
  that each piece is a text its node accepts.
\<close>

fun okPiece :: "node \<Rightarrow> bool \<Rightarrow> string \<Rightarrow> string \<Rightarrow> bool" where
  "okPiece Bol b p rest = (p = [] \<and> b)"
| "okPiece Eol b p rest = (p = [] \<and> rest = [])"
| "okPiece Open b p rest = (p = [])"
| "okPiece Close b p rest = (p = [])"
| "okPiece (Ch c One) b p rest = (length p = 1 \<and> list_all c p)"
| "okPiece (Ch c Opt) b p rest = (length p \<le> 1 \<and> list_all c p)"
| "okPiece (Ch c Star) b p rest = list_all c p"
| "okPiece (Ch c Plus) b p rest = (p \<noteq> [] \<and> list_all c p)"

fun fits :: "node list \<Rightarrow> bool \<Rightarrow> string list \<Rightarrow> string \<Rightarrow> bool" where
  "fits [] b ps s = (ps = [])"
| "fits (n # ns) b [] s = False"
| "fits (n # ns) b (p # ps) s =
     (take (length p) s = p \<and> okPiece n b p (drop (length p) s) \<and>
      fits ns (b \<and> p = []) ps (drop (length p) s))"

text \<open>No node of the pattern accepts the character \<open>x\<close>.\<close>

fun rejects :: "char \<Rightarrow> node \<Rightarrow> bool" where
  "rejects x (Ch c q) = (\<not> c x)"
| "rejects x n = True"

section \<open>Properties of the matcher\<close>

subsection \<open>The matcher finds a match exactly when there is one\<close>

lemma fits_Cons:
  "fits (n # ns) b ps s \<longleftrightarrow>
     (\<exists>p ps'. ps = p # ps' \<and> take (length p) s = p \<and> okPiece n b p (drop (length p) s) \<and>
        fits ns (b \<and> p = []) ps' (drop (length p) s))"
  by (cases ps) auto

lemma matchHere_sound: "matchHere nodes b s = Some ps \<Longrightarrow> fits nodes b ps s"
proof (induction nodes b s arbitrary: ps rule: matchHere.induct)
  case (11 c r b x xs)
  then show ?case
    by (fastforce simp: fits_Cons split: if_splits option.splits)
next
  case (13 c r b x xs)
  then show ?case
    by (fastforce simp: fits_Cons split: if_splits option.splits)
qed (auto split: if_splits option.splits)

lemma matchHere_complete: "fits nodes b ps s \<Longrightarrow> matchHere nodes b s \<noteq> None"
proof (induction nodes b s arbitrary: ps rule: matchHere.induct)
  case (1 b s)
  then show ?case by simp
next
  case (2 r b s)
  then show ?case by (auto simp: fits_Cons)
next
  case (3 r b s)
  then show ?case by (auto simp: fits_Cons)
next
  case (4 r b s)
  then show ?case by (auto simp: fits_Cons)
next
  case (5 r b s)
  then show ?case by (auto simp: fits_Cons)
next
  case (6 c r b)
  then show ?case by (auto simp: fits_Cons)
next
  case (7 c r b x xs)
  from "7.prems" obtain p ps' where p: "ps = p # ps'" "take (length p) (x # xs) = p"
    "length p = 1" "list_all c p" "fits r False ps' (drop (length p) (x # xs))"
    by (auto simp: fits_Cons)
  from p(2,3) have px: "p = [x]" by (cases p) auto
  with p "7.IH"[of ps'] show ?case by auto
next
  case (8 c r b)
  then show ?case by (auto simp: fits_Cons)
next
  case (9 c r b x xs)
  from "9.prems" obtain p ps' where p: "ps = p # ps'" "take (length p) (x # xs) = p"
    "length p \<le> 1" "list_all c p" "fits r (b \<and> p = []) ps' (drop (length p) (x # xs))"
    by (auto simp: fits_Cons)
  show ?case
  proof (cases p)
    case Nil
    with p "9.IH"(2,3)[of ps'] show ?thesis by (auto split: option.splits)
  next
    case (Cons y ys)
    with p have "p = [x]" by auto
    with p "9.IH"(1)[of ps'] show ?thesis by (auto split: option.splits)
  qed
next
  case (10 c r b)
  then show ?case by (auto simp: fits_Cons)
next
  case (11 c r b x xs)
  from "11.prems" obtain p ps' where p: "ps = p # ps'" "take (length p) (x # xs) = p"
    "list_all c p" "fits r (b \<and> p = []) ps' (drop (length p) (x # xs))"
    by (auto simp: fits_Cons)
  show ?case
  proof (cases p)
    case Nil
    with p "11.IH"(2,3)[of ps'] show ?thesis by (auto split: option.splits)
  next
    case (Cons y ys)
    with p have yx: "y = x" "take (length ys) xs = ys" "list_all c ys" "c x" by auto
    with p Cons have "fits (Ch c Star # r) False (ys # ps') xs" by (auto simp: fits_Cons)
    with yx "11.IH"(1)[of "ys # ps'"] show ?thesis by (auto split: option.splits)
  qed
next
  case (12 c r b)
  then show ?case by (auto simp: fits_Cons)
next
  case (13 c r b x xs)
  from "13.prems" obtain p ps' where p: "ps = p # ps'" "take (length p) (x # xs) = p"
    "p \<noteq> []" "list_all c p" "fits r (b \<and> p = []) ps' (drop (length p) (x # xs))"
    by (auto simp: fits_Cons)
  then obtain y ys where Cons: "p = y # ys" by (cases p) auto
  with p have yx: "y = x" "take (length ys) xs = ys" "list_all c ys" "c x" by auto
  with p Cons have "fits (Ch c Star # r) False (ys # ps') xs" by (auto simp: fits_Cons)
  with yx "13.IH"(1)[of "ys # ps'"] show ?case by (auto split: option.splits)
qed

lemma fits_Eol_last:
  "fits nodes b ps s \<Longrightarrow> nodes \<noteq> [] \<Longrightarrow> last nodes = Eol \<Longrightarrow> concat ps = s"
proof (induction nodes b ps s rule: fits.induct)
  case (3 n ns b p ps s)
  show ?case
  proof (cases "ns = []")
    case True
    with 3 show ?thesis by auto
  next
    case False
    with 3 have "concat ps = drop (length p) s" and "take (length p) s = p" by auto
    then show ?thesis by (metis append_take_drop_id concat.simps(2))
  qed
qed auto

lemma okPiece_rejects: "okPiece n b p rest \<Longrightarrow> rejects x n \<Longrightarrow> x \<notin> set p"
  by (cases n; cases "case n of Ch c q \<Rightarrow> q | _ \<Rightarrow> One") (auto simp: list_all_iff)

lemma fits_rejects:
  "fits nodes b ps s \<Longrightarrow> list_all (rejects x) nodes \<Longrightarrow> x \<notin> set (concat ps)"
proof (induction nodes b ps s rule: fits.induct)
  case (3 n ns b p ps s)
  then show ?case using okPiece_rejects[of n b p "drop (length p) s" x] by auto
qed auto

subsection \<open>Patterns anchored at the start\<close>

lemma search_Bol_False [simp]: "search (Bol # r) False s = None"
  by (induction s) auto

lemma search_Bol: "search (Bol # r) True s = map_option (Pair 0) (matchHere (Bol # r) True s)"
  by (cases s) (auto split: option.splits)

lemma test_Bol: "test (Bol # r) s \<longleftrightarrow> matchHere (Bol # r) True s \<noteq> None"
  by (simp add: test_def exec_def search_Bol)

lemma exec_Bol:
  "exec (Bol # r) s =
     map_option (\<lambda>ps. concat ps # captures (Bol # r) ps) (matchHere (Bol # r) True s)"
  by (simp add: exec_def search_Bol option.map_comp comp_def)

section \<open>Properties of the inspection engine\<close>

subsection \<open>Lines\<close>

lemma splitOn_not_Nil [simp]: "splitOn sep s \<noteq> []"
  by (induction s) (auto split: list.splits)

lemma splitOn_no_sep: "sep \<notin> set s \<Longrightarrow> splitOn sep s = [s]"
  by (induction s) auto

lemma splitLines_not_Nil [simp]: "splitLines message \<noteq> []"
  by (simp add: splitLines_def)

lemma length_splitLines_pos: "1 \<le> length (splitLines message)"
  by (simp add: splitLines_def Suc_le_eq)

lemma endsWith_single: "endsWith s [c] \<longleftrightarrow> s \<noteq> [] \<and> last s = c"
proof (cases s rule: rev_cases)
  case Nil
  then show ?thesis by (simp add: endsWith_def)
next
  case (snoc ys y)
  then show ?thesis by (auto simp: endsWith_def)
qed

subsection \<open>A merge message is one line\<close>

lemma mergeMessageRe_rejects_nl: "list_all (rejects (CHR 0x0A)) mergeMessageRe"
  by (simp add: mergeMessageRe_def lit_def refChar_def inRange_def)

lemma merge_no_newline:
  assumes "test mergeMessageRe message"
  shows "CHR 0x0A \<notin> set message"
proof -
  have re: "mergeMessageRe = Bol # tl mergeMessageRe"
    by (simp add: mergeMessageRe_def)
  from assms obtain ps where ps: "matchHere mergeMessageRe True message = Some ps"
    using test_Bol[of "tl mergeMessageRe" message] re by auto
  then have f: "fits mergeMessageRe True ps message" by (rule matchHere_sound)
  have "last mergeMessageRe = Eol" "mergeMessageRe \<noteq> []"
    by (simp_all add: mergeMessageRe_def lit_def)
  with f have "concat ps = message" using fits_Eol_last by blast
  with fits_rejects[OF f mergeMessageRe_rejects_nl] show ?thesis by simp
qed

lemma merge_one_line: "test mergeMessageRe message \<Longrightarrow> length (splitLines message) = 1"
  by (simp add: splitLines_def splitOn_no_sep merge_no_newline)

subsection \<open>Numbers and the shape of the error strings\<close>

lemma digit_cases:
  assumes "d < 10"
  shows "digit d \<in> set ''0123456789''"
  unfolding digit_def by (rule nth_mem) (use assms in simp)

lemma digit_not_nl: "d < 10 \<Longrightarrow> digit d \<noteq> CHR 0x0A"
  using digit_cases[of d] by auto

lemma showNat_not_Nil [simp]: "showNat n \<noteq> []"
  by (subst showNat.simps) simp

lemma last_showNat: "last (showNat n) = digit (n mod 10)"
  by (subst showNat.simps) simp

lemma showNat_last_not_nl: "last (showNat n) \<noteq> CHR 0x0A"
  by (simp add: last_showNat digit_not_nl)

lemma postCondition_None:
  "(\<forall>e \<in> set es. \<not> endsWith e [CHR 0x0A]) \<Longrightarrow> postCondition es = None"
  by (induction es) auto

lemma finish_ok: "(\<forall>e \<in> set es. \<not> endsWith e [CHR 0x0A]) \<Longrightarrow> finish es = Inr es"
  by (simp add: finish_def postCondition_None)

lemma subjectLengthError_shape:
  "take 5 (subjectLengthError s w) = ''The s''" "\<not> endsWith (subjectLengthError s w) [CHR 0x0A]"
  by (simp_all add: subjectLengthError_def endsWith_single)

lemma capitalizedVerbError_shape:
  "take 5 capitalizedVerbError = ''The s''" "\<not> endsWith capitalizedVerbError [CHR 0x0A]"
  by (simp_all add: capitalizedVerbError_def endsWith_single)

lemma imperativeError_shape:
  "take 5 (imperativeError w) = ''The s''" "\<not> endsWith (imperativeError w) [CHR 0x0A]"
  by (simp_all add: imperativeError_def endsWith_single)

lemma imperativeErrorAdditional_shape:
  "take 5 (imperativeErrorAdditional w) = ''The s''"
  "\<not> endsWith (imperativeErrorAdditional w) [CHR 0x0A]"
  by (simp_all add: imperativeErrorAdditional_def endsWith_single)

lemma trailingDotError_shape:
  "take 5 trailingDotError = ''The s''" "\<not> endsWith trailingDotError [CHR 0x0A]"
  by (simp_all add: trailingDotError_def endsWith_single)

lemma bodyLineError_shape:
  "take 5 (bodyLineError i l) = ''The l''" "\<not> endsWith (bodyLineError i l) [CHR 0x0A]"
  by (simp_all add: bodyLineError_def endsWith_single)

lemma duplicateWordError_shape:
  "take 5 (duplicateWordError w) = ''The f''" "\<not> endsWith (duplicateWordError w) [CHR 0x0A]"
  by (simp_all add: duplicateWordError_def endsWith_single)

lemma emptyBodyError_shape:
  "take 5 emptyBodyError = ''At le''" "\<not> endsWith emptyBodyError [CHR 0x0A]"
  by (simp_all add: emptyBodyError_def endsWith_single)

lemma unexpectedEmptyBodyError_shape:
  "take 5 unexpectedEmptyBodyError = ''Unexp''"
  "\<not> endsWith unexpectedEmptyBodyError [CHR 0x0A]"
  by (simp_all add: unexpectedEmptyBodyError_def endsWith_single)

lemmas error_shapes = emptyBodyError_shape unexpectedEmptyBodyError_shape subjectLengthError_shape capitalizedVerbError_shape imperativeError_shape
  imperativeErrorAdditional_shape trailingDotError_shape bodyLineError_shape
  duplicateWordError_shape

lemma checkSubject_shape:
  assumes "checkSubject SET s av = Inr es" and "e \<in> set es"
  shows "take 5 e = ''The s'' \<and> \<not> endsWith e [CHR 0x0A]"
  using assms
  by (auto simp: checkSubject_def Let_def error_shapes
      split: option.splits if_splits sum.splits)

lemma bodyLoop_set:
  "e \<in> set (bodyLoop i ls errs) \<Longrightarrow> e \<in> set errs \<or> (\<exists>j l. e = bodyLineError j l)"
  by (induction i ls errs rule: bodyLoop.induct) (auto split: if_splits)

lemma checkBody_shape:
  assumes "e \<in> set (checkBody s ls)"
  shows "take 5 e \<in> {''The l'', ''The f'', ''At le'', ''Unexp''} \<and> \<not> endsWith e [CHR 0x0A]"
  using assms
  by (auto simp: checkBody_def Let_def error_shapes
      dest!: bodyLoop_set split: option.splits if_splits)

lemma fewLinesError_shape:
  "take 5 (fewLinesError n) = ''Expec''" "\<not> endsWith (fewLinesError n) [CHR 0x0A]"
  by (simp_all add: fewLinesError_def endsWith_single showNat_last_not_nl)

lemma fewLinesMultiError_shape:
  "take 5 (fewLinesMultiError n) = ''Expec''" "\<not> endsWith (fewLinesMultiError n) [CHR 0x0A]"
  by (simp_all add: fewLinesMultiError_def endsWith_single showNat_last_not_nl)

lemma separatorError_shape:
  "take 5 (separatorError n) = ''Expec''" "\<not> endsWith (separatorError n) [CHR 0x0A]"
  by (simp_all add: separatorError_def endsWith_single showNat_last_not_nl)

lemma splitSubjectBody_shape:
  assumes "e \<in> set (errors (splitSubjectBody ls))"
  shows "take 5 e = ''Expec'' \<and> \<not> endsWith e [CHR 0x0A]"
  using assms
  by (auto simp: splitSubjectBody_def fewLinesError_shape fewLinesMultiError_shape
      separatorError_shape split: if_splits)

subsection \<open>How \<open>check\<close> routes a message\<close>

lemma check_merge: "test mergeMessageRe message \<Longrightarrow> check SET message av flag = Inr []"
  by (simp add: check_def)

lemma check_structural:
  assumes "\<not> test mergeMessageRe message"
    and "\<not> (length (splitLines message) = 1 \<and> flag)"
    and "errors (splitSubjectBody (splitLines message)) \<noteq> []"
  shows "check SET message av flag = Inr (errors (splitSubjectBody (splitLines message)))"
proof -
  have "finish (errors (splitSubjectBody (splitLines message)))
          = Inr (errors (splitSubjectBody (splitLines message)))"
    by (rule finish_ok) (simp add: splitSubjectBody_shape)
  with assms show ?thesis
    by (auto simp: check_def Let_def)
qed

lemma not_merge_if_lines: "2 \<le> length (splitLines message) \<Longrightarrow> \<not> test mergeMessageRe message"
  using merge_one_line[of message] by auto

lemma check_oneliner:
  assumes "\<not> test mergeMessageRe message" and "length (splitLines message) = 1"
  shows "check SET message av True = checkSubject SET (splitLines message ! 0) av"
proof (cases "checkSubject SET (splitLines message ! 0) av")
  case (Inl d)
  with assms show ?thesis by (simp add: check_def)
next
  case (Inr es)
  then have "finish es = Inr es"
    by (intro finish_ok) (simp add: checkSubject_shape)
  with Inr assms show ?thesis by (simp add: check_def)
qed

lemma check_full:
  assumes "3 \<le> length (splitLines message)" and "splitLines message ! 1 = []"
  shows "check SET message av flag =
     (case checkSubject SET (splitLines message ! 0) av of
        Inl d \<Rightarrow> Inl d
      | Inr es \<Rightarrow> Inr (es @ checkBody (splitLines message ! 0) (drop 2 (splitLines message))))"
proof -
  from assms(1) have nm: "\<not> test mergeMessageRe message"
    using merge_one_line[of message] by auto
  have ssb: "errors (splitSubjectBody (splitLines message)) = []"
    "subjectBody (splitSubjectBody (splitLines message)) =
       Some \<lparr>subject = splitLines message ! 0, bodyLines = drop 2 (splitLines message)\<rparr>"
    using assms by (auto simp: splitSubjectBody_def)
  show ?thesis
  proof (cases "checkSubject SET (splitLines message ! 0) av")
    case (Inl d)
    with assms nm ssb show ?thesis by (simp add: check_def Let_def)
  next
    case (Inr es)
    have "finish (es @ checkBody (splitLines message ! 0) (drop 2 (splitLines message)))
        = Inr (es @ checkBody (splitLines message ! 0) (drop 2 (splitLines message)))"
      using checkSubject_shape[OF Inr] checkBody_shape
      by (intro finish_ok) auto
    with Inr assms nm ssb show ?thesis by (simp add: check_def Let_def)
  qed
qed

lemma check_shape:
  assumes r: "check SET message av flag = Inr errs" and that: "e \<in> set errs"
  shows "take 5 e \<in> {''The s'', ''The l'', ''The f'', ''At le'', ''Unexp'', ''Expec''} \<and>
         \<not> endsWith e [CHR 0x0A]"
proof (cases "test mergeMessageRe message")
  case True
  with r that show ?thesis by (simp add: check_merge)
next
  case nm: False
  show ?thesis
  proof (cases "length (splitLines message) = 1 \<and> flag")
    case True
    with nm r have "checkSubject SET (splitLines message ! 0) av = Inr errs"
      by (simp add: check_oneliner)
    from checkSubject_shape[OF this that] show ?thesis by simp
  next
    case nf: False
    show ?thesis
    proof (cases "errors (splitSubjectBody (splitLines message)) = []")
      case False
      with nm nf r have "errs = errors (splitSubjectBody (splitLines message))"
        by (simp add: check_structural)
      with that splitSubjectBody_shape[of e "splitLines message"] show ?thesis by simp
    next
      case True
      then have l: "3 \<le> length (splitLines message)" "splitLines message ! 1 = []"
        using length_splitLines_pos[of message]
        by (auto simp: splitSubjectBody_def split: if_splits)
      from r obtain es where es: "checkSubject SET (splitLines message ! 0) av = Inr es"
        and errs: "errs = es @ checkBody (splitLines message ! 0) (drop 2 (splitLines message))"
        by (auto simp: check_full[OF l] split: sum.splits)
      from that errs consider "e \<in> set es"
        | "e \<in> set (checkBody (splitLines message ! 0) (drop 2 (splitLines message)))"
        by auto
      then show ?thesis
      proof cases
        case 1
        from checkSubject_shape[OF es 1] show ?thesis by simp
      next
        case 2
        from checkBody_shape[OF 2] show ?thesis by auto
      qed
    qed
  qed
qed

subsection \<open>The leftmost match\<close>

lemma search_sound:
  "search nodes b s = Some (i, ps) \<Longrightarrow> i \<le> length s \<and> fits nodes (b \<and> i = 0) ps (drop i s)"
proof (induction s arbitrary: b i)
  case Nil
  then show ?case by (auto dest: matchHere_sound)
next
  case (Cons x xs)
  show ?case
  proof (cases "matchHere nodes b (x # xs)")
    case (Some qs)
    with Cons.prems show ?thesis by (auto dest: matchHere_sound)
  next
    case None
    with Cons.prems obtain j where j: "i = Suc j" "search nodes False xs = Some (j, ps)"
      by auto
    from Cons.IH[OF j(2)] j(1) show ?thesis by simp
  qed
qed

lemma fits_needs_One:
  "fits nodes b ps s \<Longrightarrow> Ch c One \<in> set nodes \<Longrightarrow> \<exists>x \<in> set s. c x"
proof (induction nodes b ps s rule: fits.induct)
  case (3 n ns b p ps s)
  show ?case
  proof (cases "n = Ch c One")
    case True
    with 3 have "take (length p) s = p" "length p = 1" "list_all c p" by auto
    then show ?thesis by (cases s; cases p) auto
  next
    case False
    with 3 have "\<exists>x\<in>set (drop (length p) s). c x" by auto
    then show ?thesis by (meson in_set_dropD)
  qed
qed auto

lemma search_None_if:
  assumes "Ch c One \<in> set nodes" and "\<forall>x \<in> set s. \<not> c x"
  shows "search nodes b s = None"
proof (rule ccontr)
  assume "search nodes b s \<noteq> None"
  then obtain i ps where "search nodes b s = Some (i, ps)" by auto
  from search_sound[OF this] have "fits nodes (b \<and> i = 0) ps (drop i s)" by simp
  from fits_needs_One[OF this assms(1)] assms(2) show False by (meson in_set_dropD)
qed

lemma replace_unchanged_if:
  "Ch c One \<in> set nodes \<Longrightarrow> \<forall>x \<in> set s. \<not> c x \<Longrightarrow> replace nodes s = s"
  by (simp add: replace_def search_None_if)

lemma test_False_if:
  "Ch c One \<in> set nodes \<Longrightarrow> \<forall>x \<in> set s. \<not> c x \<Longrightarrow> \<not> test nodes s"
  by (simp add: test_def exec_def search_None_if)

subsection \<open>The capitalized-word pattern\<close>

lemma fits_capitalizedWordRe:
  "fits capitalizedWordRe True ps s \<longleftrightarrow>
     (\<exists>u ls x rest. s = u # ls @ x # rest \<and> isUpper u \<and> list_all isLower ls \<and>
        \<not> (isLower x \<or> isUpper x) \<and> ps = [[], [], [u], ls, [], [x]])"
  (is "?L \<longleftrightarrow> ?R")
proof
  assume ?R
  then show ?L by (auto simp: capitalizedWordRe_def)
next
  assume ?L
  then obtain p2 p3 p5 where ps: "ps = [[], [], p2, p3, [], p5]"
    and a: "take (length p2) s = p2" "length p2 = 1" "list_all isUpper p2"
    and b: "take (length p3) (drop (length p2) s) = p3" "list_all isLower p3"
    and c: "take (length p5) (drop (length p3) (drop (length p2) s)) = p5" "length p5 = 1"
      "list_all (\<lambda>c. \<not> (isLower c \<or> isUpper c)) p5"
    by (auto simp: capitalizedWordRe_def fits_Cons)
  from a obtain u where u: "p2 = [u]" "isUpper u" by (cases p2) auto
  from c obtain x where x: "p5 = [x]" "\<not> (isLower x \<or> isUpper x)" by (cases p5) auto
  have "s = p2 @ p3 @ p5 @ drop (length p5) (drop (length p3) (drop (length p2) s))"
    using a(1) b(1) c(1) by (metis append_take_drop_id)
  with u x ps b(2) show ?R by auto
qed

lemma capitalizedWord_unique:
  assumes "u # ls @ x # rest = u' # ls' @ x' # rest'"
    and "list_all isLower ls" "list_all isLower ls'" "\<not> isLower x" "\<not> isLower x'"
  shows "u = u' \<and> ls = ls' \<and> x = x' \<and> rest = rest'"
proof -
  from assms(1) have u: "u = u'" and e: "ls @ x # rest = ls' @ x' # rest'" by auto
  have "takeWhile isLower (ls @ x # rest) = ls" "takeWhile isLower (ls' @ x' # rest') = ls'"
    using assms(2-5) by (simp_all add: list_all_iff takeWhile_tail)
  with e have "ls = ls'" by simp
  with e u show ?thesis by simp
qed

lemma exec_capitalizedWordRe_iff:
  "exec capitalizedWordRe s = Some m \<longleftrightarrow>
     (\<exists>u ls x rest. s = u # ls @ x # rest \<and> isUpper u \<and> list_all isLower ls \<and>
        \<not> (isLower x \<or> isUpper x) \<and> m = [u # ls @ [x], u # ls])"
  (is "?L \<longleftrightarrow> ?R")
proof -
  have re: "capitalizedWordRe = Bol # tl capitalizedWordRe"
    by (simp add: capitalizedWordRe_def)
  have ex: "exec capitalizedWordRe s =
     map_option (\<lambda>ps. concat ps # captures capitalizedWordRe ps) (matchHere capitalizedWordRe True s)"
    using exec_Bol[of "tl capitalizedWordRe" s] re by simp
  have cap: "concat [[], [], [u], ls, [], [x]] # captures capitalizedWordRe [[], [], [u], ls, [], [x]]
      = [u # ls @ [x], u # ls]" for u ls x
    by (simp add: capitalizedWordRe_def)
  show ?thesis
  proof
    assume ?L
    then obtain ps where ps: "matchHere capitalizedWordRe True s = Some ps"
      and m: "m = concat ps # captures capitalizedWordRe ps"
      by (auto simp: ex)
    from matchHere_sound[OF ps] show ?R
      unfolding fits_capitalizedWordRe using m cap by auto
  next
    assume ?R
    then obtain u ls x rest where s: "s = u # ls @ x # rest" "isUpper u" "list_all isLower ls"
      "\<not> (isLower x \<or> isUpper x)" and m: "m = [u # ls @ [x], u # ls]" by auto
    then have "fits capitalizedWordRe True [[], [], [u], ls, [], [x]] s"
      unfolding fits_capitalizedWordRe by blast
    from matchHere_complete[OF this] obtain ps where
      ps: "matchHere capitalizedWordRe True s = Some ps" by auto
    from matchHere_sound[OF ps] obtain u' ls' x' rest' where
      s': "s = u' # ls' @ x' # rest'" "isUpper u'" "list_all isLower ls'"
      "\<not> (isLower x' \<or> isUpper x')" and ps': "ps = [[], [], [u'], ls', [], [x']]"
      unfolding fits_capitalizedWordRe by blast
    from capitalizedWord_unique[of u ls x rest u' ls' x' rest'] s s'
    have "u = u'" "ls = ls'" "x = x'" by auto
    with ps ps' m cap show ?L by (simp add: ex)
  qed
qed

lemma exec_capitalizedWordRe_length:
  "exec capitalizedWordRe s = Some m \<Longrightarrow> length m = 2"
  by (auto simp: exec_capitalizedWordRe_iff)

lemma exec_capitalizedWordRe_None_iff:
  "exec capitalizedWordRe s = None \<longleftrightarrow>
     \<not> (\<exists>u ls x rest. s = u # ls @ x # rest \<and> isUpper u \<and> list_all isLower ls \<and>
        \<not> (isLower x \<or> isUpper x))"
proof -
  have "exec capitalizedWordRe s = None \<longleftrightarrow> \<not> (\<exists>m. exec capitalizedWordRe s = Some m)"
    by auto
  then show ?thesis unfolding exec_capitalizedWordRe_iff by blast
qed

subsection \<open>The subject check\<close>

lemma verbsPrecondition_None_iff:
  "verbsPrecondition av = None \<longleftrightarrow> (\<forall>v \<in> set av. v \<noteq> [] \<and> v = toLowerCase v)"
  by (induction av) auto

lemma verbsPrecondition_Some:
  "verbsPrecondition av = Some d \<Longrightarrow>
     d = EmptyAdditionalVerb \<or> (\<exists>v \<in> set av. d = NotLowerCaseVerb v)"
  by (induction av) (auto split: if_splits)

lemma checkSubject_defect:
  "verbsPrecondition av = Some d \<Longrightarrow> checkSubject SET subj av = Inl d"
  by (simp add: checkSubject_def)

lemma checkSubject_report:
  assumes "verbsPrecondition av = None"
  shows "checkSubject SET subj av =
     Inr ((if 50 < length (replace suffixHashCodeRe subj)
           then [subjectLengthError subj (replace suffixHashCodeRe subj)] else []) @
          (case exec capitalizedWordRe (replace suffixHashCodeRe subj) of
             None \<Rightarrow> [capitalizedVerbError]
           | Some m \<Rightarrow>
               if toLowerCase (m ! 1) \<notin> SET \<and> toLowerCase (m ! 1) \<notin> set av
               then [if av = [] then imperativeError (m ! 1)
                     else imperativeErrorAdditional (m ! 1)]
               else []) @
          (if endsWith (replace suffixHashCodeRe subj) ''.'' then [trailingDotError] else []))"
proof (cases "exec capitalizedWordRe (replace suffixHashCodeRe subj)")
  case None
  with assms show ?thesis by (simp add: checkSubject_def Let_def)
next
  case (Some m)
  then have "length m = 2" by (rule exec_capitalizedWordRe_length)
  with Some assms show ?thesis by (simp add: checkSubject_def Let_def)
qed

lemma letter_props:
  "isUpper c \<or> isLower c \<Longrightarrow>
     c \<noteq> CHR ''('' \<and> c \<noteq> CHR '' '' \<and> c \<noteq> CHR 0x0A \<and> c \<noteq> CHR 0x0D \<and> c \<noteq> CHR ''.''"
  by (auto simp: isUpper_def isLower_def inRange_def)

lemma splitLines_single:
  assumes "CHR 0x0A \<notin> set s" and "CHR 0x0D \<notin> set s"
  shows "splitLines s = [s]"
proof -
  have "replace [Ch ((=) (CHR 0x0D)) One, Eol] s = s"
    using assms(2) by (intro replace_unchanged_if[where c = "(=) (CHR 0x0D)"]) auto
  with assms(1) show ?thesis by (simp add: splitLines_def splitOn_no_sep)
qed

lemma not_merge_if_no_space: "CHR '' '' \<notin> set s \<Longrightarrow> \<not> test mergeMessageRe s"
  by (rule test_False_if[where c = "(=) (CHR '' '')"]) (auto simp: mergeMessageRe_def lit_def)

lemma startsWith_append [simp]: "startsWith (p @ s) p"
  by (simp add: startsWith_def)

lemma checkSubject_subject:
  assumes "checkSubject SET s av = Inr es" and "e \<in> set es"
  shows "startsWith e ''The subject ''"
  using assms
  by (auto simp: checkSubject_def Let_def startsWith_def subjectLengthError_def
      capitalizedVerbError_def imperativeError_def imperativeErrorAdditional_def
      trailingDotError_def split: option.splits if_splits sum.splits)

subsection \<open>The merge pattern, read declaratively\<close>

lemma fits_mergeMessageRe:
  assumes "x \<noteq> []" "y \<noteq> []" "list_all refChar x" "list_all refChar y"
  shows "fits mergeMessageRe True
     ([[]] @ map (\<lambda>c. [c]) (''Merge branch '' @ [CHR 0x27]) @ [x] @
      map (\<lambda>c. [c]) ([CHR 0x27] @ '' '') @ map (\<lambda>c. [c]) ''into '' @ [y, []])
     (''Merge branch '' @ [CHR 0x27] @ x @ [CHR 0x27] @ '' into '' @ y)"
  using assms by (simp add: mergeMessageRe_def lit_def)

lemma test_mergeMessageRe_if:
  assumes "x \<noteq> []" "y \<noteq> []" "list_all refChar x" "list_all refChar y"
  shows "test mergeMessageRe (''Merge branch '' @ [CHR 0x27] @ x @ [CHR 0x27] @ '' into '' @ y)"
proof -
  have re: "mergeMessageRe = Bol # tl mergeMessageRe"
    by (simp add: mergeMessageRe_def)
  from matchHere_complete[OF fits_mergeMessageRe[OF assms]] show ?thesis
    using test_Bol[of "tl mergeMessageRe"] re by simp
qed

lemma fits_lit1:
  "fits (Ch ((=) c) One # ns) b ps s \<longleftrightarrow>
     (\<exists>ps' s'. ps = [c] # ps' \<and> s = c # s' \<and> fits ns False ps' s')"
  (is "?L \<longleftrightarrow> ?R")
proof
  assume ?R then show ?L by auto
next
  assume ?L
  then obtain p ps' where p: "ps = p # ps'" "take (length p) s = p" "length p = 1"
    "list_all ((=) c) p" "fits ns (b \<and> p = []) ps' (drop (length p) s)"
    by (auto simp: fits_Cons)
  from p(3,4) have pc: "p = [c]" by (cases p) auto
  with p(2) obtain s' where "s = c # s'" by (cases s) auto
  with p pc show ?R by auto
qed

lemma fits_lit:
  "fits (lit t @ ns) b ps s \<longleftrightarrow>
     (\<exists>ps' s'. ps = map (\<lambda>c. [c]) t @ ps' \<and> s = t @ s' \<and> fits ns (b \<and> t = []) ps' s')"
proof (induction t arbitrary: b ps s)
  case Nil
  then show ?case by (simp add: lit_def)
next
  case (Cons c t)
  have "lit (c # t) @ ns = Ch ((=) c) One # (lit t @ ns)" by (simp add: lit_def)
  then show ?case by (auto simp: fits_lit1 Cons.IH)
qed

lemma fits_Plus:
  "fits (Ch c Plus # ns) b ps s \<longleftrightarrow>
     (\<exists>p ps' s'. ps = p # ps' \<and> s = p @ s' \<and> p \<noteq> [] \<and> list_all c p \<and> fits ns False ps' s')"
  (is "?L \<longleftrightarrow> ?R")
proof
  assume ?R then show ?L by auto
next
  assume ?L
  then obtain p ps' where p: "ps = p # ps'" "take (length p) s = p" "p \<noteq> []"
    "list_all c p" "fits ns (b \<and> p = []) ps' (drop (length p) s)"
    by (auto simp: fits_Cons)
  have "s = p @ drop (length p) s" using p(2) by (metis append_take_drop_id)
  with p show ?R by auto
qed

lemma test_mergeMessageRe_only_if:
  assumes "test mergeMessageRe message"
  shows "\<exists>x y. message = ''Merge branch '' @ [CHR 0x27] @ x @ [CHR 0x27] @ '' into '' @ y \<and>
           x \<noteq> [] \<and> y \<noteq> [] \<and> list_all refChar x \<and> list_all refChar y"
proof -
  have re: "mergeMessageRe = Bol # tl mergeMessageRe"
    by (simp add: mergeMessageRe_def)
  from assms obtain ps where ps: "matchHere mergeMessageRe True message = Some ps"
    using test_Bol[of "tl mergeMessageRe" message] re by auto
  then have "fits mergeMessageRe True ps message" by (rule matchHere_sound)
  then obtain ps1 where
    1: "fits (lit (''Merge branch '' @ [CHR 0x27]) @ [Ch refChar Plus] @
              lit ([CHR 0x27] @ '' '') @ lit ''into '' @ [Ch refChar Plus, Eol])
          True ps1 message"
    by (auto simp: mergeMessageRe_def fits_Cons)
  then obtain ps2 s2 where s2: "message = (''Merge branch '' @ [CHR 0x27]) @ s2"
    and 2: "fits ([Ch refChar Plus] @ lit ([CHR 0x27] @ '' '') @ lit ''into '' @
              [Ch refChar Plus, Eol]) False ps2 s2"
    unfolding fits_lit by auto
  then obtain x ps3 s3 where s3: "s2 = x @ s3" "x \<noteq> []" "list_all refChar x"
    and 3: "fits (lit ([CHR 0x27] @ '' '') @ lit ''into '' @ [Ch refChar Plus, Eol]) False ps3 s3"
    by (auto simp: fits_Plus)
  then obtain ps4 s4 where s4: "s3 = ([CHR 0x27] @ '' '') @ s4"
    and 4: "fits (lit ''into '' @ [Ch refChar Plus, Eol]) False ps4 s4"
    unfolding fits_lit by auto
  then obtain ps5 s5 where s5: "s4 = ''into '' @ s5"
    and 5: "fits [Ch refChar Plus, Eol] False ps5 s5"
    unfolding fits_lit by auto
  then obtain y where s6: "s5 = y" "y \<noteq> []" "list_all refChar y"
    by (auto simp: fits_Plus fits_Cons)
  from s2 s3 s4 s5 s6 show ?thesis by auto
qed

lemma test_mergeMessageRe_iff:
  "test mergeMessageRe message \<longleftrightarrow>
     (\<exists>x y. message = ''Merge branch '' @ [CHR 0x27] @ x @ [CHR 0x27] @ '' into '' @ y \<and>
           x \<noteq> [] \<and> y \<noteq> [] \<and> list_all refChar x \<and> list_all refChar y)"
  using test_mergeMessageRe_if test_mergeMessageRe_only_if by blast

subsection \<open>The body check\<close>

lemma trim_Nil_iff: "trim s = [] \<longleftrightarrow> list_all isSpace s"
proof -
  have "trim s = [] \<longleftrightarrow> (\<forall>c \<in> set (dropWhile isSpace s). isSpace c)"
    by (simp add: trim_def dropWhile_eq_Nil_conv)
  also have "\<dots> \<longleftrightarrow> dropWhile isSpace s = []"
    by (metis dropWhile_eq_Nil_conv dropWhile_idem)
  also have "\<dots> \<longleftrightarrow> list_all isSpace s"
    by (simp add: dropWhile_eq_Nil_conv list_all_iff)
  finally show ?thesis .
qed

lemma isUpper_not_isSpace: "isUpper c \<Longrightarrow> \<not> isSpace c"
  by (auto simp: isUpper_def isSpace_def inRange_def)

lemma exec_capitalizedWordRe_trim:
  "exec capitalizedWordRe s = Some m \<Longrightarrow> trim s \<noteq> []"
  by (auto simp: exec_capitalizedWordRe_iff trim_Nil_iff isUpper_not_isSpace)

lemma duplicateWordError_not_in_bodyLoop:
  "duplicateWordError w \<notin> set (bodyLoop i ls [])"
proof
  assume "duplicateWordError w \<in> set (bodyLoop i ls [])"
  from bodyLoop_set[OF this] obtain j l where "duplicateWordError w = bodyLineError j l"
    by auto
  then have "take 5 (duplicateWordError w) = take 5 (bodyLineError j l)" by simp
  then show False by (simp add: error_shapes)
qed

lemma duplicateWordError_not_subject:
  assumes "checkSubject SET s av = Inr es"
  shows "duplicateWordError w \<notin> set es"
proof
  assume "duplicateWordError w \<in> set es"
  from checkSubject_shape[OF assms this] show False by (simp add: error_shapes)
qed

lemma checkBody_duplicate:
  assumes "bodyLs \<noteq> []"
  shows "checkBody subj bodyLs =
     (if length bodyLs = 1 \<and> trim (bodyLs ! 0) = [] then [unexpectedEmptyBodyError]
      else bodyLoop 0 bodyLs [] @
        (case (exec capitalizedWordRe (bodyLs ! 0), exec capitalizedWordRe subj) of
           (Some mb, Some ms) \<Rightarrow>
              if toLowerCase (ms ! 1) = toLowerCase (mb ! 1) then [duplicateWordError (ms ! 1)]
              else []
         | _ \<Rightarrow> []))"
  using assms exec_capitalizedWordRe_length[of subj]
  by (auto simp: checkBody_def Let_def split: option.splits)

subsection \<open>Line numbers are rendered injectively\<close>

lemma digit_inj: "a < 10 \<Longrightarrow> b < 10 \<Longrightarrow> digit a = digit b \<Longrightarrow> a = b"
proof -
  assume a: "a < 10" and b: "b < 10" and e: "digit a = digit b"
  have d: "distinct ''0123456789''" by simp
  from a b have "a < length ''0123456789''" "b < length ''0123456789''" by simp_all
  with d e show "a = b" unfolding digit_def by (simp only: nth_eq_iff_index_eq)
qed

lemma showNat_inj: "showNat m = showNat n \<Longrightarrow> m = n"
proof (induction m arbitrary: n rule: showNat.induct)
  case (1 m)
  show ?case
  proof (cases "m < 10")
    case True
    with "1.prems" have e: "[digit m] = showNat n" by (subst (asm) showNat.simps) simp
    show ?thesis
    proof (cases "n < 10")
      case n: True
      with e have "digit m = digit n" by (subst (asm) showNat.simps) simp
      with True n show ?thesis by (rule digit_inj)
    next
      case False
      with e have "[digit m] = showNat (n div 10) @ [digit (n mod 10)]"
        by (subst (asm) showNat.simps) simp
      then show ?thesis using showNat_not_Nil[of "n div 10"] by auto
    qed
  next
    case False
    with "1.prems" have e: "showNat (m div 10) @ [digit (m mod 10)] = showNat n"
      by (subst (asm) showNat.simps) simp
    show ?thesis
    proof (cases "n < 10")
      case True
      with e have "showNat (m div 10) @ [digit (m mod 10)] = [digit n]"
        by (subst (asm) (2) showNat.simps) simp
      then show ?thesis using showNat_not_Nil[of "m div 10"] by auto
    next
      case n: False
      with e have "showNat (m div 10) @ [digit (m mod 10)] = showNat (n div 10) @ [digit (n mod 10)]"
        by (subst (asm) (2) showNat.simps) simp
      then have a: "showNat (m div 10) = showNat (n div 10)" and b: "digit (m mod 10) = digit (n mod 10)"
        by simp_all
      from "1.IH"[OF False a] have "m div 10 = n div 10" .
      moreover from b have "m mod 10 = n mod 10" by (intro digit_inj) simp_all
      ultimately show ?thesis by (metis div_mult_mod_eq)
    qed
  qed
qed

lemma showNat_digits: "c \<in> set (showNat n) \<Longrightarrow> c \<in> set ''0123456789''"
proof (induction n rule: showNat.induct)
  case (1 n)
  show ?case
  proof (cases "n < 10")
    case True
    with "1.prems" have "c = digit n" by (subst (asm) showNat.simps) simp
    with True digit_cases show ?thesis by simp
  next
    case False
    with "1.prems" have "c \<in> set (showNat (n div 10)) \<or> c = digit (n mod 10)"
      by (subst (asm) showNat.simps) auto
    then show ?thesis
    proof
      assume "c \<in> set (showNat (n div 10))"
      with "1.IH"[OF False] show ?thesis .
    next
      assume "c = digit (n mod 10)"
      then show ?thesis using digit_cases[of "n mod 10"] by simp
    qed
  qed
qed

lemma showNat_no_space: "CHR '' '' \<notin> set (showNat n)"
  using showNat_digits[of "CHR '' ''" n] by auto

lemma append_sep_eq:
  assumes "xs @ sep # r = ys @ sep # r'" and "sep \<notin> set xs" and "sep \<notin> set ys"
  shows "xs = ys"
proof -
  have "takeWhile (\<lambda>c. c \<noteq> sep) (xs @ sep # r) = xs"
    "takeWhile (\<lambda>c. c \<noteq> sep) (ys @ sep # r') = ys"
    using assms(2,3) by (auto simp: takeWhile_tail)
  with assms(1) show ?thesis by simp
qed

lemma bodyLineError_index: "bodyLineError i l = bodyLineError j l' \<Longrightarrow> i = j"
proof -
  assume e: "bodyLineError i l = bodyLineError j l'"
  have f: "\<exists>r. bodyLineError k t = ''The line '' @ showNat (k + 3) @ CHR '' '' # r" for k t
    by (simp add: bodyLineError_def)
  from f[of i l] obtain r where r: "bodyLineError i l = ''The line '' @ showNat (i + 3) @ CHR '' '' # r"
    by blast
  from f[of j l'] obtain r' where
    r': "bodyLineError j l' = ''The line '' @ showNat (j + 3) @ CHR '' '' # r'"
    by blast
  from e have "''The line '' @ showNat (i + 3) @ CHR '' '' # r =
      ''The line '' @ showNat (j + 3) @ CHR '' '' # r'"
    unfolding r r' .
  then have "showNat (i + 3) @ CHR '' '' # r = showNat (j + 3) @ CHR '' '' # r'"
    by simp
  from append_sep_eq[OF this showNat_no_space showNat_no_space]
  have "i + 3 = j + 3" by (rule showNat_inj)
  then show ?thesis by simp
qed

subsection \<open>The loop over the body lines\<close>

text \<open>What the loop over the body lines adds for the line of index \<open>i\<close>.\<close>

lemma bodyLoop_eq:
  "bodyLoop i ls errs =
     errs @ concat (map (\<lambda>(k, line).
        if \<not> test urlLineRe line \<and> \<not> test linkDefinitionRe line \<and> 72 < length line
        then [bodyLineError k line] else []) (enumerate i ls))"
  by (induction i ls errs rule: bodyLoop.induct) auto

subsection \<open>The URL and link-definition patterns, read declaratively\<close>

lemma fits_Star:
  "fits (Ch c Star # ns) b ps s \<longleftrightarrow>
     (\<exists>p ps' s'. ps = p # ps' \<and> s = p @ s' \<and> list_all c p \<and> fits ns (b \<and> p = []) ps' s')"
  (is "?L \<longleftrightarrow> ?R")
proof
  assume ?R then show ?L by auto
next
  assume ?L
  then obtain p ps' where p: "ps = p # ps'" "take (length p) s = p"
    "list_all c p" "fits ns (b \<and> p = []) ps' (drop (length p) s)"
    by (auto simp: fits_Cons)
  have "s = p @ drop (length p) s" using p(2) by (metis append_take_drop_id)
  with p show ?R by blast
qed

lemma test_Bol_fits: "test (Bol # r) s \<longleftrightarrow> (\<exists>ps. fits (Bol # r) True ps s)"
  using matchHere_sound[of "Bol # r" True s] matchHere_complete[of "Bol # r" True _ s]
  unfolding test_Bol by blast

lemma fits_Plus_Eol:
  "fits [Ch c Plus, Eol] b ps s \<longleftrightarrow> s \<noteq> [] \<and> list_all c s \<and> ps = [s, []]"
  by (auto simp: fits_Plus fits_Cons)

lemma list_all_notSpace: "list_all notSpace t \<longleftrightarrow> CHR '' '' \<notin> set t"
  by (auto simp: list_all_iff notSpace_def)

lemma test_urlLineRe_iff:
  "test urlLineRe line \<longleftrightarrow>
     (\<exists>scheme rest. line = scheme @ ''://'' @ rest \<and> scheme \<noteq> [] \<and> rest \<noteq> [] \<and>
        CHR '' '' \<notin> set scheme \<and> CHR '' '' \<notin> set rest)"
  (is "?L \<longleftrightarrow> ?R")
proof
  have re: "urlLineRe = Bol # Ch notSpace Plus # (lit ''://'' @ [Ch notSpace Plus, Eol])"
    by (simp add: urlLineRe_def)
  {
    assume ?L
    then obtain ps where "fits urlLineRe True ps line"
      unfolding re test_Bol_fits by blast
    then obtain ps1 where "fits (Ch notSpace Plus # (lit ''://'' @ [Ch notSpace Plus, Eol])) True ps1 line"
      unfolding re by (auto simp: fits_Cons[of Bol])
    then obtain scheme ps2 s2 where 1: "line = scheme @ s2" "scheme \<noteq> []" "list_all notSpace scheme"
      and "fits (lit ''://'' @ [Ch notSpace Plus, Eol]) False ps2 s2"
      unfolding fits_Plus by blast
    then obtain ps3 s3 where 2: "s2 = ''://'' @ s3" and "fits [Ch notSpace Plus, Eol] False ps3 s3"
      unfolding fits_lit by auto
    then have 3: "s3 \<noteq> []" "list_all notSpace s3"
      unfolding fits_Plus_Eol by simp_all
    from 1 2 3 show ?R unfolding list_all_notSpace by blast
  }
  {
    assume ?R
    then obtain scheme rest where l: "line = scheme @ ''://'' @ rest" "scheme \<noteq> []" "rest \<noteq> []"
      "list_all notSpace scheme" "list_all notSpace rest"
      unfolding list_all_notSpace by blast
    then have "fits urlLineRe True ([[], scheme] @ map (\<lambda>c. [c]) ''://'' @ [rest, []]) line"
      by (simp add: urlLineRe_def lit_def)
    then show ?L unfolding re test_Bol_fits by blast
  }
qed

lemma test_linkDefinitionRe_iff:
  "test linkDefinitionRe line \<longleftrightarrow>
     (\<exists>label ws1 ws2 scheme rest.
        line = ''['' @ label @ '']'' @ ws1 @ '':'' @ ws2 @ scheme @ ''://'' @ rest \<and>
        label \<noteq> [] \<and> CHR '']'' \<notin> set label \<and> list_all isSpace ws1 \<and> list_all isSpace ws2 \<and>
        scheme \<noteq> [] \<and> rest \<noteq> [] \<and> CHR '' '' \<notin> set scheme \<and> CHR '' '' \<notin> set rest)"
  (is "?L \<longleftrightarrow> ?R")
proof
  have re: "linkDefinitionRe =
     Bol # Ch ((=) (CHR ''['')) One # Ch (\<lambda>c. c \<noteq> CHR '']'') Plus # Ch ((=) (CHR '']'')) One #
     Ch isSpace Star # Ch ((=) (CHR '':'')) One # Ch isSpace Star # Ch notSpace Plus #
     (lit ''://'' @ [Ch notSpace Plus, Eol])"
    by (simp add: linkDefinitionRe_def)
  have nb: "list_all (\<lambda>c. c \<noteq> CHR '']'') t \<longleftrightarrow> CHR '']'' \<notin> set t" for t
    by (auto simp: list_all_iff)
  {
    assume ?L
    then obtain ps where "fits linkDefinitionRe True ps line"
      unfolding re test_Bol_fits by blast
    then obtain ps0 where "fits (tl linkDefinitionRe) True ps0 line"
      unfolding re by (auto simp: fits_Cons[of Bol])
    then obtain ps1 s1 where 1: "line = CHR ''['' # s1"
      and "fits (drop 2 linkDefinitionRe) False ps1 s1"
      unfolding re by (auto simp: fits_lit1)
    then obtain label ps2 s2 where 2: "s1 = label @ s2" "label \<noteq> []"
      "list_all (\<lambda>c. c \<noteq> CHR '']'') label"
      and "fits (drop 3 linkDefinitionRe) False ps2 s2"
      unfolding re by (auto simp: fits_Plus)
    then obtain ps3 s3 where 3: "s2 = CHR '']'' # s3"
      and "fits (drop 4 linkDefinitionRe) False ps3 s3"
      unfolding re by (auto simp: fits_lit1)
    then obtain ws1 ps4 s4 where 4: "s3 = ws1 @ s4" "list_all isSpace ws1"
      and "fits (drop 5 linkDefinitionRe) False ps4 s4"
      unfolding re by (auto simp: fits_Star)
    then obtain ps5 s5 where 5: "s4 = CHR '':'' # s5"
      and "fits (drop 6 linkDefinitionRe) False ps5 s5"
      unfolding re by (auto simp: fits_lit1)
    then obtain ws2 ps6 s6 where 6: "s5 = ws2 @ s6" "list_all isSpace ws2"
      and "fits (drop 7 linkDefinitionRe) False ps6 s6"
      unfolding re by (auto simp: fits_Star)
    then obtain scheme ps7 s7 where 7: "s6 = scheme @ s7" "scheme \<noteq> []" "list_all notSpace scheme"
      and "fits (lit ''://'' @ [Ch notSpace Plus, Eol]) False ps7 s7"
      unfolding re by (auto simp: fits_Plus)
    then obtain ps8 s8 where 8: "s7 = ''://'' @ s8"
      and "fits [Ch notSpace Plus, Eol] False ps8 s8"
      unfolding fits_lit by auto
    then have 9: "s8 \<noteq> []" "list_all notSpace s8"
      unfolding fits_Plus_Eol by simp_all
    have "line = ''['' @ label @ '']'' @ ws1 @ '':'' @ ws2 @ scheme @ ''://'' @ s8"
      using 1 2(1) 3 4(1) 5 6(1) 7(1) 8 by simp
    with 2 4 6 7 9 show ?R unfolding list_all_notSpace nb by blast
  }
  {
    assume ?R
    then obtain label ws1 ws2 scheme rest where
      l: "line = ''['' @ label @ '']'' @ ws1 @ '':'' @ ws2 @ scheme @ ''://'' @ rest"
        "label \<noteq> []" "list_all (\<lambda>c. c \<noteq> CHR '']'') label" "list_all isSpace ws1"
        "list_all isSpace ws2" "scheme \<noteq> []" "rest \<noteq> []"
        "list_all notSpace scheme" "list_all notSpace rest"
      unfolding list_all_notSpace nb by blast
    then have "fits linkDefinitionRe True
        ([[], ''['', label, '']'', ws1, '':'', ws2, scheme] @ map (\<lambda>c. [c]) ''://'' @ [rest, []])
        line"
      by (simp add: linkDefinitionRe_def lit_def)
    then show ?L unfolding re test_Bol_fits by blast
  }
qed

subsection \<open>The per-line errors of the body check\<close>

lemma checkBody_lines:
  assumes "bodyLs \<noteq> []" and "\<not> (length bodyLs = 1 \<and> trim (bodyLs ! 0) = [])"
  shows "filter (\<lambda>e. \<exists>k l. e = bodyLineError k l) (checkBody subj bodyLs) =
     concat (map (\<lambda>(k, line).
        if \<not> test urlLineRe line \<and> \<not> test linkDefinitionRe line \<and> 72 < length line
        then [bodyLineError k line] else []) (enumerate 0 bodyLs))"
proof -
  let ?P = "\<lambda>e. \<exists>k l. e = bodyLineError k l"
  let ?f = "\<lambda>(k, line).
        if \<not> test urlLineRe line \<and> \<not> test linkDefinitionRe line \<and> 72 < length line
        then [bodyLineError k line] else []"
  have dup: "\<not> ?P (duplicateWordError w)" for w
  proof
    assume "?P (duplicateWordError w)"
    then obtain k l where "duplicateWordError w = bodyLineError k l" by blast
    then have "take 5 (duplicateWordError w) = take 5 (bodyLineError k l)" by simp
    then show False by (simp add: error_shapes)
  qed
  have all: "\<forall>e \<in> set (concat (map ?f (enumerate 0 bodyLs))). ?P e"
    by (auto split: if_splits)
  then have keep: "filter ?P (concat (map ?f (enumerate 0 bodyLs))) = concat (map ?f (enumerate 0 bodyLs))"
    by (simp only: filter_True)
  have loop: "bodyLoop 0 bodyLs [] = concat (map ?f (enumerate 0 bodyLs))"
    by (simp add: bodyLoop_eq)
  from assms checkBody_duplicate[OF assms(1), of subj]
  have "checkBody subj bodyLs = bodyLoop 0 bodyLs [] \<or>
        (\<exists>w. checkBody subj bodyLs = bodyLoop 0 bodyLs [] @ [duplicateWordError w])"
    by (auto split: option.splits if_splits)
  then show ?thesis
  proof
    assume "checkBody subj bodyLs = bodyLoop 0 bodyLs []"
    then show ?thesis using keep loop by simp
  next
    assume "\<exists>w. checkBody subj bodyLs = bodyLoop 0 bodyLs [] @ [duplicateWordError w]"
    then obtain w where "checkBody subj bodyLs = bodyLoop 0 bodyLs [] @ [duplicateWordError w]"
      by blast
    then show ?thesis using keep loop dup[of w] by simp
  qed
qed

lemma in_line_errors_iff:
  "e \<in> set (concat (map (\<lambda>(k, line).
        if \<not> test urlLineRe line \<and> \<not> test linkDefinitionRe line \<and> 72 < length line
        then [bodyLineError k line] else []) (enumerate 0 ls))) \<longleftrightarrow>
   (\<exists>j < length ls. e = bodyLineError j (ls ! j) \<and> \<not> test urlLineRe (ls ! j) \<and>
       \<not> test linkDefinitionRe (ls ! j) \<and> 72 < length (ls ! j))"
  (is "?L \<longleftrightarrow> ?R")
proof
  assume ?L
  then show ?R by (auto simp: in_set_enumerate_eq split: if_splits)
next
  assume ?R
  then obtain j where j: "j < length ls" "e = bodyLineError j (ls ! j)"
    "\<not> test urlLineRe (ls ! j)" "\<not> test linkDefinitionRe (ls ! j)" "72 < length (ls ! j)"
    by blast
  from j(1) have "(j, ls ! j) \<in> set (enumerate 0 ls)" by (simp add: in_set_enumerate_eq)
  with j show ?L by (auto intro!: bexI[of _ "(j, ls ! j)"])
qed

section \<open>The claims\<close>

text \<open>
  C9. Splitting a message on the line feed always yields at least one logical line, so the
  branch of \<open>check\<close> for zero lines is never taken: no report of \<open>check\<close> contains the error
  "The message is empty.", and the empty message with one-liners disallowed is reported as
  having too few lines (got: 1).
\<close>

theorem C9_message_never_empty:
  "1 \<le> length (splitLines message) \<and>
   (\<forall>errs. check SET message av flag = Inr errs \<longrightarrow> ''The message is empty.'' \<notin> set errs) \<and>
   check SET [] av False =
     Inr [''Expected at least three lines (subject, empty, body), but got: 1'']"
proof (intro conjI allI impI)
  show "1 \<le> length (splitLines message)" by (rule length_splitLines_pos)
next
  fix errs
  assume r: "check SET message av flag = Inr errs"
  show "''The message is empty.'' \<notin> set errs"
  proof
    assume "''The message is empty.'' \<in> set errs"
    from check_shape[OF r this] show False by simp
  qed
next
  have "\<not> test mergeMessageRe []"
    by (simp add: test_def exec_def mergeMessageRe_def lit_def)
  moreover have "splitLines [] = [[]]"
    by (simp add: splitLines_def replace_def)
  ultimately show "check SET [] av False =
     Inr [''Expected at least three lines (subject, empty, body), but got: 1'']"
    by (simp add: check_structural splitSubjectBody_def fewLinesError_def showNat.simps digit_def)
qed

theorem C9_message_never_empty_witness:
  "check {''fix''} ''fix'' [] True =
     Inr [''The subject must start with a capitalized verb (e.g., '' @ [CHR 0x22] @ ''Change'' @
          [CHR 0x22] @ '').''] \<and>
   ''The message is empty.'' \<notin>
     set [''The subject must start with a capitalized verb (e.g., '' @ [CHR 0x22] @ ''Change'' @
          [CHR 0x22] @ '').'']"
proof -
  have h: "check {''fix''} ''fix'' [] True =
     Inr [''The subject must start with a capitalized verb (e.g., '' @ [CHR 0x22] @ ''Change'' @
          [CHR 0x22] @ '').'']"
    by code_simp
  from C9_message_never_empty[of "''fix''" "{''fix''}" "[]" True] h show ?thesis
    by blast
qed

text \<open>
  C3. A message with at least three logical lines whose second line is not empty is
  reported by exactly one error, the one about the separator, which names the length of the
  second line. No subject check and no body check is made: the report is the same whatever
  the additional verbs are, also when they would make the subject check throw.
\<close>

theorem C3_separator_error_alone:
  "3 \<le> length (splitLines message) \<Longrightarrow> splitLines message ! 1 \<noteq> [] \<Longrightarrow>
   check SET message av flag =
     Inr [''Expected an empty line between the subject and the body, '' @
          ''but got a second line of length: '' @ showNat (length (splitLines message ! 1))]"
proof -
  assume l: "3 \<le> length (splitLines message)" and n: "splitLines message ! 1 \<noteq> []"
  from l have nm: "\<not> test mergeMessageRe message" by (simp add: not_merge_if_lines)
  from l n have e: "errors (splitSubjectBody (splitLines message)) =
      [separatorError (length (splitLines message ! 1))]"
    by (auto simp: splitSubjectBody_def)
  from l have "\<not> (length (splitLines message) = 1 \<and> flag)" by simp
  from check_structural[OF nm this, of SET av] e show ?thesis
    by (simp add: separatorError_def)
qed

theorem C3_separator_error_alone_witness:
  "3 \<le> length (splitLines (''Change SomeClass to OtherClass'' @ [CHR 0x0A] @ ''---'' @ [CHR 0x0A] @
        ''Replaces the class.'')) \<and>
   splitLines (''Change SomeClass to OtherClass'' @ [CHR 0x0A] @ ''---'' @ [CHR 0x0A] @
        ''Replaces the class.'') ! 1 \<noteq> [] \<and>
   check {''change''} (''Change SomeClass to OtherClass'' @ [CHR 0x0A] @ ''---'' @ [CHR 0x0A] @
        ''Replaces the class.'') [''NotLower''] False =
     Inr [''Expected an empty line between the subject and the body, '' @
          ''but got a second line of length: 3'']"
proof -
  let ?m = "''Change SomeClass to OtherClass'' @ [CHR 0x0A] @ ''---'' @ [CHR 0x0A] @
        ''Replaces the class.''"
  have n: "showNat 3 = ''3''" by code_simp
  have h1: "3 \<le> length (splitLines ?m)" by code_simp
  have h2: "splitLines ?m ! 1 \<noteq> []" by code_simp
  have h3: "length (splitLines ?m ! 1) = 3" by code_simp
  from C3_separator_error_alone[OF h1 h2, of "{''change''}" "[''NotLower'']" False] h1 h2
  show ?thesis unfolding h3 n by simp
qed

text \<open>
  C10. A subject that is nothing but a capitalized word (a capital letter followed by
  lower-case letters, with no character after it) is not matched by the capitalized-word
  pattern, which asks for a non-letter after the word. With valid additional verbs the subject
  check, and \<open>check\<close> on the one-line message with one-liners allowed, therefore report
  "must start with a capitalized verb", whatever the verb sets contain.
\<close>

theorem C10_bare_word_not_matched:
  assumes "isUpper u" and "list_all isLower ls"
  shows "exec capitalizedWordRe (u # ls) = None \<and>
     ((\<forall>v \<in> set av. v \<noteq> [] \<and> v = toLowerCase v) \<longrightarrow>
        (\<exists>es. checkSubject SET (u # ls) av = Inr es \<and> capitalizedVerbError \<in> set es) \<and>
        (\<exists>es. check SET (u # ls) av True = Inr es \<and> capitalizedVerbError \<in> set es))"
proof -
  have letters: "\<forall>c \<in> set (u # ls). isUpper c \<or> isLower c"
    using assms by (auto simp: list_all_iff)
  have none: "exec capitalizedWordRe (u # ls) = None"
  proof -
    have "\<not> (\<exists>u' ls' x rest. u # ls = u' # ls' @ x # rest \<and> isUpper u' \<and> list_all isLower ls' \<and>
        \<not> (isLower x \<or> isUpper x))"
    proof
      assume "\<exists>u' ls' x rest. u # ls = u' # ls' @ x # rest \<and> isUpper u' \<and> list_all isLower ls' \<and>
        \<not> (isLower x \<or> isUpper x)"
      then obtain u' ls' x rest where e: "u # ls = u' # ls' @ x # rest"
        and x: "\<not> (isLower x \<or> isUpper x)" by blast
      from e have "x \<in> set (u # ls)" by (metis in_set_conv_decomp list.set_intros(2))
      with letters x show False by blast
    qed
    then show ?thesis using exec_capitalizedWordRe_None_iff[of "u # ls"] by blast
  qed
  have same: "replace suffixHashCodeRe (u # ls) = u # ls"
    using letters letter_props
    by (intro replace_unchanged_if[where c = "(=) (CHR ''('')"])
       (auto simp: suffixHashCodeRe_def)
  have lines: "splitLines (u # ls) = [u # ls]"
    using letters letter_props by (intro splitLines_single) auto
  have nm: "\<not> test mergeMessageRe (u # ls)"
    using letters letter_props by (intro not_merge_if_no_space) auto
  have one: "check SET (u # ls) av True = checkSubject SET (u # ls) av"
    using check_oneliner[OF nm, of SET av] lines by simp
  show ?thesis
  proof (intro conjI impI)
    show "exec capitalizedWordRe (u # ls) = None" by (rule none)
  next
    assume "\<forall>v \<in> set av. v \<noteq> [] \<and> v = toLowerCase v"
    then have "verbsPrecondition av = None" by (simp add: verbsPrecondition_None_iff)
    from checkSubject_report[OF this, of SET "u # ls"]
    show "\<exists>es. checkSubject SET (u # ls) av = Inr es \<and> capitalizedVerbError \<in> set es"
      by (simp add: same none)
    then show "\<exists>es. check SET (u # ls) av True = Inr es \<and> capitalizedVerbError \<in> set es"
      by (simp add: one)
  qed
qed

theorem C10_bare_word_not_matched_witness:
  "isUpper (CHR ''F'') \<and> list_all isLower ''ix'' \<and>
   list_all (\<lambda>v. v \<noteq> [] \<and> v = toLowerCase v) [''fix''] \<and>
   exec capitalizedWordRe ''Fix'' = None \<and>
   check {''fix''} ''Fix'' [''fix''] True =
     Inr [''The subject must start with a capitalized verb (e.g., '' @ [CHR 0x22] @ ''Change'' @
          [CHR 0x22] @ '').'']"
proof -
  have h1: "isUpper (CHR ''F'')" by code_simp
  have h2: "list_all isLower ''ix''" by code_simp
  have h3: "\<forall>v \<in> set [''fix'']. v \<noteq> [] \<and> v = toLowerCase v" by code_simp
  have r: "check {''fix''} ''Fix'' [''fix''] True =
     Inr [''The subject must start with a capitalized verb (e.g., '' @ [CHR 0x22] @ ''Change'' @
          [CHR 0x22] @ '').'']" by code_simp
  from C10_bare_word_not_matched[OF h1 h2, of "[''fix'']" "{''fix''}"] h1 h2 h3 r
  show ?thesis unfolding list_all_iff by blast
qed

text \<open>
  C8. When a member of the additional verbs is empty or differs from its lower-casing, the
  subject check of any subject throws (the result is a defect, never a list of errors), and
  so does \<open>check\<close> on every message whose subject it checks. When all additional verbs are
  valid, \<open>check\<close> returns a list of errors for every message, and none of them ends in a
  line feed. The post-condition loop throws on a list that holds an error ending in a line
  feed instead of returning it.
\<close>

theorem C8_defects_and_postcondition:
  "((\<exists>v \<in> set av. v = [] \<or> v \<noteq> toLowerCase v) \<longrightarrow>
      (\<exists>d. checkSubject SET subj av = Inl d \<and>
           (d = EmptyAdditionalVerb \<or> (\<exists>v \<in> set av. d = NotLowerCaseVerb v))) \<and>
      (\<not> test mergeMessageRe message \<and>
       (length (splitLines message) = 1 \<and> flag \<or>
        3 \<le> length (splitLines message) \<and> splitLines message ! 1 = []) \<longrightarrow>
         (\<exists>d. check SET message av flag = Inl d))) \<and>
   ((\<forall>v \<in> set av. v \<noteq> [] \<and> v = toLowerCase v) \<longrightarrow>
      (\<exists>errs. check SET message av flag = Inr errs \<and>
              (\<forall>e \<in> set errs. \<not> endsWith e [CHR 0x0A]))) \<and>
   ((\<exists>e \<in> set es. endsWith e [CHR 0x0A]) \<longrightarrow>
      (\<exists>e \<in> set es. finish es = Inl (ErrorEndingInNewLine e)))"
proof (intro conjI impI)
  assume "\<exists>v \<in> set av. v = [] \<or> v \<noteq> toLowerCase v"
  then have "verbsPrecondition av \<noteq> None" by (auto simp: verbsPrecondition_None_iff)
  then obtain d where d: "verbsPrecondition av = Some d" by auto
  from verbsPrecondition_Some[OF d] checkSubject_defect[OF d, of SET subj]
  show "\<exists>d. checkSubject SET subj av = Inl d \<and>
           (d = EmptyAdditionalVerb \<or> (\<exists>v \<in> set av. d = NotLowerCaseVerb v))"
    by auto
  assume r: "\<not> test mergeMessageRe message \<and>
       (length (splitLines message) = 1 \<and> flag \<or>
        3 \<le> length (splitLines message) \<and> splitLines message ! 1 = [])"
  have cs: "checkSubject SET (splitLines message ! 0) av = Inl d"
    by (rule checkSubject_defect[OF d])
  from r consider "length (splitLines message) = 1 \<and> flag"
    | "3 \<le> length (splitLines message) \<and> splitLines message ! 1 = []" by blast
  then show "\<exists>d. check SET message av flag = Inl d"
  proof cases
    case 1
    with r cs show ?thesis using check_oneliner[of message SET av] by auto
  next
    case 2
    with cs show ?thesis using check_full[of message SET av flag] by auto
  qed
next
  assume "\<forall>v \<in> set av. v \<noteq> [] \<and> v = toLowerCase v"
  then have ok: "verbsPrecondition av = None" by (simp add: verbsPrecondition_None_iff)
  have sub: "\<exists>es. checkSubject SET s av = Inr es" for s
    using checkSubject_report[OF ok, of SET s] by blast
  have "\<exists>errs. check SET message av flag = Inr errs"
  proof (cases "test mergeMessageRe message")
    case True
    then show ?thesis by (simp add: check_merge)
  next
    case nm: False
    show ?thesis
    proof (cases "length (splitLines message) = 1 \<and> flag")
      case True
      with nm sub[of "splitLines message ! 0"] show ?thesis
        using check_oneliner[of message SET av] by auto
    next
      case nf: False
      show ?thesis
      proof (cases "errors (splitSubjectBody (splitLines message)) = []")
        case False
        with nm nf show ?thesis by (simp add: check_structural)
      next
        case True
        then have l: "3 \<le> length (splitLines message)" "splitLines message ! 1 = []"
          using length_splitLines_pos[of message]
          by (auto simp: splitSubjectBody_def split: if_splits)
        from sub[of "splitLines message ! 0"] show ?thesis
          by (auto simp: check_full[OF l])
      qed
    qed
  qed
  then obtain errs where errs: "check SET message av flag = Inr errs" by blast
  with check_shape[OF errs]
  show "\<exists>errs. check SET message av flag = Inr errs \<and>
              (\<forall>e \<in> set errs. \<not> endsWith e [CHR 0x0A])"
    by blast
next
  assume "\<exists>e \<in> set es. endsWith e [CHR 0x0A]"
  then have "\<exists>e \<in> set es. postCondition es = Some (ErrorEndingInNewLine e)"
    by (induction es) auto
  then show "\<exists>e \<in> set es. finish es = Inl (ErrorEndingInNewLine e)"
    by (auto simp: finish_def)
qed

theorem C8_defects_and_postcondition_witness:
  "(\<exists>v \<in> set [''table'', ''Fix'']. v = [] \<or> v \<noteq> toLowerCase v) \<and>
   checkSubject {''change''} ''Change SomeClass to OtherClass'' [''table'', ''Fix'']
     = Inl (NotLowerCaseVerb ''Fix'') \<and>
   check {''change''} ''Change SomeClass to OtherClass'' [''table'', ''Fix''] True
     = Inl (NotLowerCaseVerb ''Fix'') \<and>
   checkSubject {''change''} ''Change SomeClass to OtherClass'' [''table'', '''']
     = Inl EmptyAdditionalVerb \<and>
   list_all (\<lambda>v. v \<noteq> [] \<and> v = toLowerCase v) [''table''] \<and>
   check {''change''} ''Change SomeClass to OtherClass.'' [''table''] True
     = Inr [''The subject must not end with a dot ('' @ [CHR 0x27] @ ''.'' @ [CHR 0x27] @ '').''] \<and>
   (\<exists>e \<in> set [''ok'', ''bad'' @ [CHR 0x0A]]. endsWith e [CHR 0x0A]) \<and>
   finish [''ok'', ''bad'' @ [CHR 0x0A]] = Inl (ErrorEndingInNewLine (''bad'' @ [CHR 0x0A]))"
proof -
  let ?m = "''Change SomeClass to OtherClass''"
  have h1: "\<exists>v \<in> set [''table'', ''Fix'']. v = [] \<or> v \<noteq> toLowerCase v" by code_simp
  have h2: "\<not> test mergeMessageRe ?m \<and>
       (length (splitLines ?m) = 1 \<and> True \<or>
        3 \<le> length (splitLines ?m) \<and> splitLines ?m ! 1 = [])" by code_simp
  have h3: "\<forall>v \<in> set [''table'']. v \<noteq> [] \<and> v = toLowerCase v" by code_simp
  have h4: "\<exists>e \<in> set [''ok'', ''bad'' @ [CHR 0x0A]]. endsWith e [CHR 0x0A]" by code_simp
  have e1: "checkSubject {''change''} ?m [''table'', ''Fix''] = Inl (NotLowerCaseVerb ''Fix'')"
    by code_simp
  have e2: "check {''change''} ?m [''table'', ''Fix''] True = Inl (NotLowerCaseVerb ''Fix'')"
    by code_simp
  have e3: "checkSubject {''change''} ?m [''table'', ''''] = Inl EmptyAdditionalVerb"
    by code_simp
  have e4: "check {''change''} ''Change SomeClass to OtherClass.'' [''table''] True
     = Inr [''The subject must not end with a dot ('' @ [CHR 0x27] @ ''.'' @ [CHR 0x27] @ '').'']"
    by code_simp
  have e5: "finish [''ok'', ''bad'' @ [CHR 0x0A]] = Inl (ErrorEndingInNewLine (''bad'' @ [CHR 0x0A]))"
    by code_simp
  from C8_defects_and_postcondition[of "[''table'', ''Fix'']" "{''change''}" ?m ?m True
      "[''ok'', ''bad'' @ [CHR 0x0A]]"]
    C8_defects_and_postcondition[of "[''table'']" "{''change''}" ?m
      "''Change SomeClass to OtherClass.''" True "[]"]
    h1 h2 h3 h4 e1 e2 e3 e4 e5
  show ?thesis unfolding list_all_iff by blast
qed

text \<open>
  C6, as stated: every message of exactly one logical line, with one-liners disallowed, is
  reported by the single error "Expected at least three lines (subject, empty, body), but
  got: 1". The merge message of the repository's own test is one logical line and is
  reported by no error at all.
\<close>

theorem C6_counterexample:
  "length (splitLines (''Merge branch '' @ [CHR 0x27] @ ''V20DataModel'' @ [CHR 0x27] @
       '' into miho/Conform-to-spec'')) = 1 \<and>
   check {''change''} (''Merge branch '' @ [CHR 0x27] @ ''V20DataModel'' @ [CHR 0x27] @
       '' into miho/Conform-to-spec'') [] False = Inr [] \<and>
   check {''change''} (''Merge branch '' @ [CHR 0x27] @ ''V20DataModel'' @ [CHR 0x27] @
       '' into miho/Conform-to-spec'') [] False \<noteq>
     Inr [''Expected at least three lines (subject, empty, body), but got: 1'']"
  by code_simp

text \<open>
  C6, amended. A message that matches the merge pattern is reported by no error. Any other
  message of exactly one logical line is, with one-liners disallowed, reported by exactly
  the error "Expected at least three lines (subject, empty, body), but got: 1", and with
  one-liners allowed its report is that of the subject check of the line, each error of
  which is an error about the subject (neither a structural nor a body error). A message of
  exactly two logical lines is reported by exactly the multi-line variant citing 2.
\<close>

theorem C6_line_count_routing:
  "(test mergeMessageRe message \<longrightarrow> check SET message av flag = Inr []) \<and>
   (\<not> test mergeMessageRe message \<and> length (splitLines message) = 1 \<longrightarrow>
      check SET message av False =
        Inr [''Expected at least three lines (subject, empty, body), but got: 1''] \<and>
      check SET message av True = checkSubject SET (splitLines message ! 0) av \<and>
      (\<forall>errs. check SET message av True = Inr errs \<longrightarrow>
         (\<forall>e \<in> set errs. startsWith e ''The subject ''))) \<and>
   (length (splitLines message) = 2 \<longrightarrow>
      check SET message av flag =
        Inr [''Expected at least three lines (subject, empty, body) '' @
             ''in a multi-line message, but got: 2''])"
proof (intro conjI impI allI ballI)
  assume "test mergeMessageRe message"
  then show "check SET message av flag = Inr []" by (rule check_merge)
next
  assume a: "\<not> test mergeMessageRe message \<and> length (splitLines message) = 1"
  then have e: "errors (splitSubjectBody (splitLines message)) = [fewLinesError 1]"
    by (simp add: splitSubjectBody_def)
  have n: "showNat (Suc 0) = ''1''" by (simp add: showNat.simps digit_def)
  from a e check_structural[of message False SET av]
  show "check SET message av False =
        Inr [''Expected at least three lines (subject, empty, body), but got: 1'']"
    by (simp add: fewLinesError_def n)
next
  assume a: "\<not> test mergeMessageRe message \<and> length (splitLines message) = 1"
  then show "check SET message av True = checkSubject SET (splitLines message ! 0) av"
    by (simp add: check_oneliner)
next
  fix errs e
  assume a: "\<not> test mergeMessageRe message \<and> length (splitLines message) = 1"
    and r: "check SET message av True = Inr errs" and e: "e \<in> set errs"
  from a r have "checkSubject SET (splitLines message ! 0) av = Inr errs"
    by (simp add: check_oneliner)
  from checkSubject_subject[OF this e] show "startsWith e ''The subject ''" .
next
  assume a: "length (splitLines message) = 2"
  then have nm: "\<not> test mergeMessageRe message" by (simp add: not_merge_if_lines)
  from a have e: "errors (splitSubjectBody (splitLines message)) = [fewLinesMultiError 2]"
    by (simp add: splitSubjectBody_def)
  have n: "showNat 2 = ''2''" by (simp add: showNat.simps digit_def)
  from a nm e check_structural[of message flag SET av]
  show "check SET message av flag =
        Inr [''Expected at least three lines (subject, empty, body) '' @
             ''in a multi-line message, but got: 2'']"
    by (simp add: fewLinesMultiError_def n)
qed

theorem C6_line_count_routing_witness:
  "\<not> test mergeMessageRe ''Change SomeClass to OtherClass.'' \<and>
   length (splitLines ''Change SomeClass to OtherClass.'') = 1 \<and>
   check {''change''} ''Change SomeClass to OtherClass.'' [] False =
     Inr [''Expected at least three lines (subject, empty, body), but got: 1''] \<and>
   check {''change''} ''Change SomeClass to OtherClass.'' [] True =
     Inr [''The subject must not end with a dot ('' @ [CHR 0x27] @ ''.'' @ [CHR 0x27] @ '').''] \<and>
   startsWith (''The subject must not end with a dot ('' @ [CHR 0x27] @ ''.'' @ [CHR 0x27] @ '').'')
     ''The subject '' \<and>
   length (splitLines (''Change SomeClass to OtherClass'' @ [CHR 0x0A])) = 2 \<and>
   check {''change''} (''Change SomeClass to OtherClass'' @ [CHR 0x0A]) [] True =
     Inr [''Expected at least three lines (subject, empty, body) '' @
          ''in a multi-line message, but got: 2''] \<and>
   test mergeMessageRe (''Merge branch '' @ [CHR 0x27] @ ''a'' @ [CHR 0x27] @ '' into b'') \<and>
   check {''change''} (''Merge branch '' @ [CHR 0x27] @ ''a'' @ [CHR 0x27] @ '' into b'') [] False
     = Inr []"
proof -
  let ?m = "''Change SomeClass to OtherClass.''"
  let ?m2 = "''Change SomeClass to OtherClass'' @ [CHR 0x0A]"
  let ?m3 = "''Merge branch '' @ [CHR 0x27] @ ''a'' @ [CHR 0x27] @ '' into b''"
  let ?dot = "''The subject must not end with a dot ('' @ [CHR 0x27] @ ''.'' @ [CHR 0x27] @ '').''"
  have h1: "\<not> test mergeMessageRe ?m \<and> length (splitLines ?m) = 1" by code_simp
  have h2: "length (splitLines ?m2) = 2" by code_simp
  have h3: "test mergeMessageRe ?m3" by code_simp
  have e1: "check {''change''} ?m [] True = Inr [?dot]" by code_simp
  have e2: "?dot \<in> set [?dot]" by simp
  from C6_line_count_routing[of ?m "{''change''}" "[]" False] h1 e1 e2
  have a: "check {''change''} ?m [] False =
     Inr [''Expected at least three lines (subject, empty, body), but got: 1'']"
    and b: "startsWith ?dot ''The subject ''"
    by blast+
  from C6_line_count_routing[of ?m2 "{''change''}" "[]" True] h2
  have c: "check {''change''} ?m2 [] True =
     Inr [''Expected at least three lines (subject, empty, body) '' @
          ''in a multi-line message, but got: 2'']" by blast
  from C6_line_count_routing[of ?m3 "{''change''}" "[]" False] h3
  have d: "check {''change''} ?m3 [] False = Inr []" by blast
  from h1 h2 h3 e1 a b c d show ?thesis by blast
qed

text \<open>
  C1. A message that begins with a line \<open>Merge branch '<ref>' into <ref>\<close> is to be
  reported by no error, whatever follows the line. The merge pattern of \<open>check\<close> ends in
  \<open>$\<close> and its class of ref characters excludes the line feed, so it matches the merge line
  only when the line is the whole message. The merge line of the repository's own test is
  reported by no error; the same line followed by a second line, or by nothing but a line
  feed, is not exempt and is reported as a message of two lines.
\<close>

theorem C1_merge_line_with_more_text_is_checked:
  "test mergeMessageRe (''Merge branch '' @ [CHR 0x27] @ ''V20DataModel'' @ [CHR 0x27] @
       '' into miho/Conform-to-spec'') \<and>
   check {''change''} (''Merge branch '' @ [CHR 0x27] @ ''V20DataModel'' @ [CHR 0x27] @
       '' into miho/Conform-to-spec'') [] False = Inr [] \<and>
   test mergeMessageRe (''Merge branch '' @ [CHR 0x27] @ ''V20DataModel'' @ [CHR 0x27] @
       '' into miho/Conform-to-spec'' @ [CHR 0x0A] @ ''Conflicts: src/inspection.ts'') = False \<and>
   check {''change''} (''Merge branch '' @ [CHR 0x27] @ ''V20DataModel'' @ [CHR 0x27] @
       '' into miho/Conform-to-spec'' @ [CHR 0x0A] @ ''Conflicts: src/inspection.ts'') [] False =
     Inr [''Expected at least three lines (subject, empty, body) '' @
          ''in a multi-line message, but got: 2''] \<and>
   check {''change''} (''Merge branch '' @ [CHR 0x27] @ ''V20DataModel'' @ [CHR 0x27] @
       '' into miho/Conform-to-spec'' @ [CHR 0x0A]) [] False =
     Inr [''Expected at least three lines (subject, empty, body) '' @
          ''in a multi-line message, but got: 2'']"
  by code_simp

text \<open>
  C7. For a body of at least one line: when the capitalized-word pattern matches both the
  subject and the first body line and the two captured words are equal after lower-casing,
  the report of the body check holds the duplicate-first-word error (naming the word of the
  subject) exactly once; when the words differ after lower-casing, or when the pattern does
  not match the subject or does not match the first body line, the report holds no
  duplicate-first-word error at all. The same count holds in the report of \<open>check\<close> for a
  message whose subject and body are checked.
\<close>

theorem C7_duplicate_first_word:
  assumes "bodyLs \<noteq> []"
  shows
   "(\<forall>ms mb. exec capitalizedWordRe subj = Some ms \<and>
        exec capitalizedWordRe (bodyLs ! 0) = Some mb \<and>
        toLowerCase (ms ! 1) = toLowerCase (mb ! 1) \<longrightarrow>
        filter (\<lambda>e. \<exists>w. e = duplicateWordError w) (checkBody subj bodyLs) =
          [duplicateWordError (ms ! 1)]) \<and>
    (\<forall>ms mb. exec capitalizedWordRe subj = Some ms \<and>
        exec capitalizedWordRe (bodyLs ! 0) = Some mb \<and>
        toLowerCase (ms ! 1) \<noteq> toLowerCase (mb ! 1) \<longrightarrow>
        filter (\<lambda>e. \<exists>w. e = duplicateWordError w) (checkBody subj bodyLs) = []) \<and>
    (exec capitalizedWordRe subj = None \<or> exec capitalizedWordRe (bodyLs ! 0) = None \<longrightarrow>
        filter (\<lambda>e. \<exists>w. e = duplicateWordError w) (checkBody subj bodyLs) = []) \<and>
    (\<forall>errs. 3 \<le> length (splitLines message) \<and> splitLines message ! 1 = [] \<and>
        check SET message av flag = Inr errs \<longrightarrow>
        filter (\<lambda>e. \<exists>w. e = duplicateWordError w) errs =
        filter (\<lambda>e. \<exists>w. e = duplicateWordError w)
          (checkBody (splitLines message ! 0) (drop 2 (splitLines message))))"
proof -
  let ?P = "\<lambda>e. \<exists>w. e = duplicateWordError w"
  have unexp: "\<not> ?P unexpectedEmptyBodyError"
  proof
    assume "?P unexpectedEmptyBodyError"
    then obtain w where "unexpectedEmptyBodyError = duplicateWordError w" by blast
    then have "take 5 unexpectedEmptyBodyError = take 5 (duplicateWordError w)" by simp
    then show False by (simp add: error_shapes)
  qed
  have loop: "filter ?P (bodyLoop 0 bodyLs []) = []"
    by (auto simp: filter_empty_conv duplicateWordError_not_in_bodyLoop)
  note cb = checkBody_duplicate[OF assms, of subj]
  show ?thesis
  proof (intro conjI allI impI)
    fix ms mb
    assume h: "exec capitalizedWordRe subj = Some ms \<and>
        exec capitalizedWordRe (bodyLs ! 0) = Some mb \<and>
        toLowerCase (ms ! 1) = toLowerCase (mb ! 1)"
    then have t: "trim (bodyLs ! 0) \<noteq> []" using exec_capitalizedWordRe_trim by blast
    from h t cb have e: "checkBody subj bodyLs =
        bodyLoop 0 bodyLs [] @ [duplicateWordError (ms ! 1)]" by simp
    have "?P (duplicateWordError (ms ! 1))" by blast
    then show "filter ?P (checkBody subj bodyLs) = [duplicateWordError (ms ! 1)]"
      unfolding e filter_append loop by simp
  next
    fix ms mb
    assume h: "exec capitalizedWordRe subj = Some ms \<and>
        exec capitalizedWordRe (bodyLs ! 0) = Some mb \<and>
        toLowerCase (ms ! 1) \<noteq> toLowerCase (mb ! 1)"
    then have t: "trim (bodyLs ! 0) \<noteq> []" using exec_capitalizedWordRe_trim by blast
    from h t cb have "checkBody subj bodyLs = bodyLoop 0 bodyLs []" by simp
    then show "filter ?P (checkBody subj bodyLs) = []" by (simp only: loop)
  next
    assume h: "exec capitalizedWordRe subj = None \<or> exec capitalizedWordRe (bodyLs ! 0) = None"
    with cb have "checkBody subj bodyLs = [unexpectedEmptyBodyError] \<or>
        checkBody subj bodyLs = bodyLoop 0 bodyLs []"
      by (auto split: option.splits)
    then show "filter ?P (checkBody subj bodyLs) = []"
    proof
      assume "checkBody subj bodyLs = [unexpectedEmptyBodyError]"
      with unexp show ?thesis by simp
    next
      assume "checkBody subj bodyLs = bodyLoop 0 bodyLs []"
      then show ?thesis by (simp only: loop)
    qed
  next
    fix errs
    assume h: "3 \<le> length (splitLines message) \<and> splitLines message ! 1 = [] \<and>
        check SET message av flag = Inr errs"
    then obtain es where es: "checkSubject SET (splitLines message ! 0) av = Inr es"
      and errs: "errs = es @ checkBody (splitLines message ! 0) (drop 2 (splitLines message))"
      using check_full[of message SET av flag] by (auto split: sum.splits)
    have "filter ?P es = []"
      using duplicateWordError_not_subject[OF es] by (auto simp: filter_empty_conv)
    then show "filter ?P errs =
        filter ?P (checkBody (splitLines message ! 0) (drop 2 (splitLines message)))"
      by (simp add: errs)
  qed
qed

theorem C7_duplicate_first_word_witness:
  "[''Change SomeClass so that OtherClass does not conflict..''] \<noteq> [] \<and>
   exec capitalizedWordRe ''Change SomeClass to OtherClass'' = Some [''Change '', ''Change''] \<and>
   exec capitalizedWordRe
     ([''Change SomeClass so that OtherClass does not conflict..''] ! 0) =
       Some [''Change '', ''Change''] \<and>
   toLowerCase ([''Change '', ''Change''] ! 1) = toLowerCase ([''Change '', ''Change''] ! 1) \<and>
   checkBody ''Change SomeClass to OtherClass''
     [''Change SomeClass so that OtherClass does not conflict..''] =
     [''The first word of the subject ('' @ [CHR 0x22] @ ''Change'' @ [CHR 0x22] @
      '') must not match the first word of the body.''] \<and>
   filter (\<lambda>e. \<exists>w. e = duplicateWordError w)
     (checkBody ''Change SomeClass to OtherClass''
        [''Change SomeClass so that OtherClass does not conflict..'']) =
     [duplicateWordError ''Change''] \<and>
   exec capitalizedWordRe ([''* Do something''] ! 0) = None \<and>
   filter (\<lambda>e. \<exists>w. e = duplicateWordError w)
     (checkBody ''Change SomeClass to OtherClass'' [''* Do something'']) = []"
proof -
  let ?s = "''Change SomeClass to OtherClass''"
  let ?b = "[''Change SomeClass so that OtherClass does not conflict..'']"
  have h0: "?b \<noteq> []" and h0': "[''* Do something''] \<noteq> []" by simp_all
  have h1: "exec capitalizedWordRe ?s = Some [''Change '', ''Change'']" by code_simp
  have h2: "exec capitalizedWordRe (?b ! 0) = Some [''Change '', ''Change'']" by code_simp
  have h3: "toLowerCase ([''Change '', ''Change''] ! 1) = toLowerCase ([''Change '', ''Change''] ! 1)"
    by simp
  have h4: "exec capitalizedWordRe ([''* Do something''] ! 0) = None" by code_simp
  have e: "checkBody ?s ?b =
     [''The first word of the subject ('' @ [CHR 0x22] @ ''Change'' @ [CHR 0x22] @
      '') must not match the first word of the body.'']" by code_simp
  have n: "[''Change '', ''Change''] ! 1 = ''Change''" by simp
  from C7_duplicate_first_word[OF h0, of ?s] h1 h2 h3
  have a: "filter (\<lambda>e. \<exists>w. e = duplicateWordError w) (checkBody ?s ?b) =
     [duplicateWordError ([''Change '', ''Change''] ! 1)]" by blast
  from C7_duplicate_first_word[OF h0', of ?s] h4
  have b: "filter (\<lambda>e. \<exists>w. e = duplicateWordError w)
     (checkBody ?s [''* Do something'']) = []" by blast
  from h0 h1 h2 h3 h4 e a[unfolded n] b show ?thesis by blast
qed

text \<open>
  C5, as stated: every body line that is neither a bare URL line nor a link-definition line
  and is longer than 72 characters gets the per-line length error. A body that is a single
  line of 73 spaces is such a line, and gets no length error: the body check reports
  "Unexpected empty body" and returns.
\<close>

theorem C5_counterexample:
  "\<not> test urlLineRe (replicate 73 (CHR '' '')) \<and>
   \<not> test linkDefinitionRe (replicate 73 (CHR '' '')) \<and>
   length (replicate 73 (CHR '' '')) = 73 \<and>
   checkBody ''Do something'' [replicate 73 (CHR '' '')] = [''Unexpected empty body''] \<and>
   bodyLineError 0 (replicate 73 (CHR '' '')) \<notin>
     set (checkBody ''Do something'' [replicate 73 (CHR '' '')]) \<and>
   check {''do''} (''Do something'' @ [CHR 0x0A, CHR 0x0A] @ replicate 73 (CHR '' '')) [] False =
     Inr [''Unexpected empty body'']"
  by code_simp

text \<open>
  C5, amended. For a body that is not a single blank line (one line that is empty after
  trimming): the per-line length errors of the report are, in the order of the lines, one
  error for each line that is neither a bare URL line nor a link-definition line and is
  longer than 72 characters. So a length error citing the line of body index \<open>i\<close> is in the
  report exactly when that line is not exempt and longer than 72 characters (not at 72, at
  73), and it cites the message line number \<open>i + 3\<close>, the body line number \<open>i + 1\<close>, the
  length of the line and the JSON form of the line. The bare URL lines are the lines
  \<open>scheme://rest\<close> without a space, the link-definition lines are the lines
  \<open>[label]: scheme://rest\<close> with optional white space around the colon.
\<close>

theorem C5_body_line_length:
  assumes "bodyLs \<noteq> []" and "\<not> (length bodyLs = 1 \<and> trim (bodyLs ! 0) = [])"
  shows
   "filter (\<lambda>e. \<exists>k l. e = bodyLineError k l) (checkBody subj bodyLs) =
      concat (map (\<lambda>(k, line).
        if \<not> test urlLineRe line \<and> \<not> test linkDefinitionRe line \<and> 72 < length line
        then [bodyLineError k line] else []) (enumerate 0 bodyLs)) \<and>
    (\<forall>i < length bodyLs.
       ((\<exists>l. bodyLineError i l \<in> set (checkBody subj bodyLs)) \<longleftrightarrow>
          bodyLineError i (bodyLs ! i) \<in> set (checkBody subj bodyLs)) \<and>
       (bodyLineError i (bodyLs ! i) \<in> set (checkBody subj bodyLs) \<longleftrightarrow>
          \<not> test urlLineRe (bodyLs ! i) \<and> \<not> test linkDefinitionRe (bodyLs ! i) \<and>
          72 < length (bodyLs ! i))) \<and>
    (\<forall>i line. bodyLineError i line =
       ''The line '' @ showNat (i + 3) @ '' of the message (line '' @ showNat (i + 1) @
       '' of the body) exceeds the limit of 72 characters. The line contains '' @
       showNat (length line) @ '' characters: '' @ JSON_stringify line @ ''.'') \<and>
    (\<forall>line. test urlLineRe line \<longleftrightarrow>
       (\<exists>scheme rest. line = scheme @ ''://'' @ rest \<and> scheme \<noteq> [] \<and> rest \<noteq> [] \<and>
          CHR '' '' \<notin> set scheme \<and> CHR '' '' \<notin> set rest)) \<and>
    (\<forall>line. test linkDefinitionRe line \<longleftrightarrow>
       (\<exists>label ws1 ws2 scheme rest.
          line = ''['' @ label @ '']'' @ ws1 @ '':'' @ ws2 @ scheme @ ''://'' @ rest \<and>
          label \<noteq> [] \<and> CHR '']'' \<notin> set label \<and> list_all isSpace ws1 \<and> list_all isSpace ws2 \<and>
          scheme \<noteq> [] \<and> rest \<noteq> [] \<and> CHR '' '' \<notin> set scheme \<and> CHR '' '' \<notin> set rest))"
proof -
  let ?P = "\<lambda>e. \<exists>k l. e = bodyLineError k l"
  let ?c = "\<lambda>l. \<not> test urlLineRe l \<and> \<not> test linkDefinitionRe l \<and> 72 < length l"
  note eq = checkBody_lines[OF assms, of subj]
  have mem: "bodyLineError i l \<in> set (checkBody subj bodyLs) \<longleftrightarrow>
      (\<exists>j < length bodyLs. bodyLineError i l = bodyLineError j (bodyLs ! j) \<and> ?c (bodyLs ! j))"
    for i l
  proof -
    have "bodyLineError i l \<in> set (checkBody subj bodyLs) \<longleftrightarrow>
        bodyLineError i l \<in> set (filter ?P (checkBody subj bodyLs))"
      by auto
    then show ?thesis unfolding eq in_line_errors_iff .
  qed
  have per: "((\<exists>l. bodyLineError i l \<in> set (checkBody subj bodyLs)) \<longleftrightarrow>
          bodyLineError i (bodyLs ! i) \<in> set (checkBody subj bodyLs)) \<and>
       (bodyLineError i (bodyLs ! i) \<in> set (checkBody subj bodyLs) \<longleftrightarrow> ?c (bodyLs ! i))"
    if i: "i < length bodyLs" for i
  proof -
    have a: "bodyLineError i (bodyLs ! i) \<in> set (checkBody subj bodyLs)" if "?c (bodyLs ! i)"
      unfolding mem using i that by blast
    have b: "?c (bodyLs ! i)" if "bodyLineError i l \<in> set (checkBody subj bodyLs)" for l
    proof -
      from that obtain j where j: "bodyLineError i l = bodyLineError j (bodyLs ! j)" "?c (bodyLs ! j)"
        unfolding mem by blast
      from bodyLineError_index[OF j(1)] j(2) show ?thesis by simp
    qed
    from a b show ?thesis by blast
  qed
  show ?thesis
  proof (intro conjI allI impI)
    show "filter ?P (checkBody subj bodyLs) =
      concat (map (\<lambda>(k, line). if ?c line then [bodyLineError k line] else []) (enumerate 0 bodyLs))"
      by (rule eq)
  next
    fix i assume "i < length bodyLs"
    from per[OF this]
    show "(\<exists>l. bodyLineError i l \<in> set (checkBody subj bodyLs)) \<longleftrightarrow>
          bodyLineError i (bodyLs ! i) \<in> set (checkBody subj bodyLs)"
      and "bodyLineError i (bodyLs ! i) \<in> set (checkBody subj bodyLs) \<longleftrightarrow> ?c (bodyLs ! i)"
      by blast+
  next
    fix i line
    show "bodyLineError i line =
       ''The line '' @ showNat (i + 3) @ '' of the message (line '' @ showNat (i + 1) @
       '' of the body) exceeds the limit of 72 characters. The line contains '' @
       showNat (length line) @ '' characters: '' @ JSON_stringify line @ ''.''"
      by (simp add: bodyLineError_def)
  next
    fix line
    show "test urlLineRe line \<longleftrightarrow>
       (\<exists>scheme rest. line = scheme @ ''://'' @ rest \<and> scheme \<noteq> [] \<and> rest \<noteq> [] \<and>
          CHR '' '' \<notin> set scheme \<and> CHR '' '' \<notin> set rest)"
      by (rule test_urlLineRe_iff)
  next
    fix line
    show "test linkDefinitionRe line \<longleftrightarrow>
       (\<exists>label ws1 ws2 scheme rest.
          line = ''['' @ label @ '']'' @ ws1 @ '':'' @ ws2 @ scheme @ ''://'' @ rest \<and>
          label \<noteq> [] \<and> CHR '']'' \<notin> set label \<and> list_all isSpace ws1 \<and> list_all isSpace ws2 \<and>
          scheme \<noteq> [] \<and> rest \<noteq> [] \<and> CHR '' '' \<notin> set scheme \<and> CHR '' '' \<notin> set rest)"
      by (rule test_linkDefinitionRe_iff)
  qed
qed

theorem C5_body_line_length_witness:
  "[''This patch fixes a typo in the readme file where this project was called'',
      ''This patch fixes a typo in the readme file where this project was called!'',
      ''http://mristin@some-domain.com/some/very/very/very/very/very/very/very/long/path/index.html'',
      ''[1]: http://mristin@some-domain.com/some/very/very/very/very/very/very/very/long/path/index.html''] \<noteq> [] \<and>
   \<not> (length [''This patch fixes a typo in the readme file where this project was called'',
      ''This patch fixes a typo in the readme file where this project was called!'',
      ''http://mristin@some-domain.com/some/very/very/very/very/very/very/very/long/path/index.html'',
      ''[1]: http://mristin@some-domain.com/some/very/very/very/very/very/very/very/long/path/index.html''] = 1 \<and> trim ([''This patch fixes a typo in the readme file where this project was called'',
      ''This patch fixes a typo in the readme file where this project was called!'',
      ''http://mristin@some-domain.com/some/very/very/very/very/very/very/very/long/path/index.html'',
      ''[1]: http://mristin@some-domain.com/some/very/very/very/very/very/very/very/long/path/index.html''] ! 0) = []) \<and>
   checkBody ''Do something'' [''This patch fixes a typo in the readme file where this project was called'',
      ''This patch fixes a typo in the readme file where this project was called!'',
      ''http://mristin@some-domain.com/some/very/very/very/very/very/very/very/long/path/index.html'',
      ''[1]: http://mristin@some-domain.com/some/very/very/very/very/very/very/very/long/path/index.html''] = [''The line 4 of the message (line 2 of the body) exceeds the limit of 72 characters. '' @
      ''The line contains 73 characters: '' @ [CHR 0x22] @
      ''This patch fixes a typo in the readme file where this project was called!'' @ [CHR 0x22] @ ''.''] \<and>
   bodyLineError 1 ([''This patch fixes a typo in the readme file where this project was called'',
      ''This patch fixes a typo in the readme file where this project was called!'',
      ''http://mristin@some-domain.com/some/very/very/very/very/very/very/very/long/path/index.html'',
      ''[1]: http://mristin@some-domain.com/some/very/very/very/very/very/very/very/long/path/index.html''] ! 1) = ''The line 4 of the message (line 2 of the body) exceeds the limit of 72 characters. '' @
      ''The line contains 73 characters: '' @ [CHR 0x22] @
      ''This patch fixes a typo in the readme file where this project was called!'' @ [CHR 0x22] @ ''.'' \<and>
   (0 < length [''This patch fixes a typo in the readme file where this project was called'',
      ''This patch fixes a typo in the readme file where this project was called!'',
      ''http://mristin@some-domain.com/some/very/very/very/very/very/very/very/long/path/index.html'',
      ''[1]: http://mristin@some-domain.com/some/very/very/very/very/very/very/very/long/path/index.html''] \<and> length ([''This patch fixes a typo in the readme file where this project was called'',
      ''This patch fixes a typo in the readme file where this project was called!'',
      ''http://mristin@some-domain.com/some/very/very/very/very/very/very/very/long/path/index.html'',
      ''[1]: http://mristin@some-domain.com/some/very/very/very/very/very/very/very/long/path/index.html''] ! 0) = 72 \<and>
      bodyLineError 0 ([''This patch fixes a typo in the readme file where this project was called'',
      ''This patch fixes a typo in the readme file where this project was called!'',
      ''http://mristin@some-domain.com/some/very/very/very/very/very/very/very/long/path/index.html'',
      ''[1]: http://mristin@some-domain.com/some/very/very/very/very/very/very/very/long/path/index.html''] ! 0) \<notin> set (checkBody ''Do something'' [''This patch fixes a typo in the readme file where this project was called'',
      ''This patch fixes a typo in the readme file where this project was called!'',
      ''http://mristin@some-domain.com/some/very/very/very/very/very/very/very/long/path/index.html'',
      ''[1]: http://mristin@some-domain.com/some/very/very/very/very/very/very/very/long/path/index.html''])) \<and>
   (1 < length [''This patch fixes a typo in the readme file where this project was called'',
      ''This patch fixes a typo in the readme file where this project was called!'',
      ''http://mristin@some-domain.com/some/very/very/very/very/very/very/very/long/path/index.html'',
      ''[1]: http://mristin@some-domain.com/some/very/very/very/very/very/very/very/long/path/index.html''] \<and> length ([''This patch fixes a typo in the readme file where this project was called'',
      ''This patch fixes a typo in the readme file where this project was called!'',
      ''http://mristin@some-domain.com/some/very/very/very/very/very/very/very/long/path/index.html'',
      ''[1]: http://mristin@some-domain.com/some/very/very/very/very/very/very/very/long/path/index.html''] ! 1) = 73 \<and> \<not> test urlLineRe ([''This patch fixes a typo in the readme file where this project was called'',
      ''This patch fixes a typo in the readme file where this project was called!'',
      ''http://mristin@some-domain.com/some/very/very/very/very/very/very/very/long/path/index.html'',
      ''[1]: http://mristin@some-domain.com/some/very/very/very/very/very/very/very/long/path/index.html''] ! 1) \<and>
      \<not> test linkDefinitionRe ([''This patch fixes a typo in the readme file where this project was called'',
      ''This patch fixes a typo in the readme file where this project was called!'',
      ''http://mristin@some-domain.com/some/very/very/very/very/very/very/very/long/path/index.html'',
      ''[1]: http://mristin@some-domain.com/some/very/very/very/very/very/very/very/long/path/index.html''] ! 1) \<and>
      bodyLineError 1 ([''This patch fixes a typo in the readme file where this project was called'',
      ''This patch fixes a typo in the readme file where this project was called!'',
      ''http://mristin@some-domain.com/some/very/very/very/very/very/very/very/long/path/index.html'',
      ''[1]: http://mristin@some-domain.com/some/very/very/very/very/very/very/very/long/path/index.html''] ! 1) \<in> set (checkBody ''Do something'' [''This patch fixes a typo in the readme file where this project was called'',
      ''This patch fixes a typo in the readme file where this project was called!'',
      ''http://mristin@some-domain.com/some/very/very/very/very/very/very/very/long/path/index.html'',
      ''[1]: http://mristin@some-domain.com/some/very/very/very/very/very/very/very/long/path/index.html''])) \<and>
   (2 < length [''This patch fixes a typo in the readme file where this project was called'',
      ''This patch fixes a typo in the readme file where this project was called!'',
      ''http://mristin@some-domain.com/some/very/very/very/very/very/very/very/long/path/index.html'',
      ''[1]: http://mristin@some-domain.com/some/very/very/very/very/very/very/very/long/path/index.html''] \<and> length ([''This patch fixes a typo in the readme file where this project was called'',
      ''This patch fixes a typo in the readme file where this project was called!'',
      ''http://mristin@some-domain.com/some/very/very/very/very/very/very/very/long/path/index.html'',
      ''[1]: http://mristin@some-domain.com/some/very/very/very/very/very/very/very/long/path/index.html''] ! 2) = 91 \<and> test urlLineRe ([''This patch fixes a typo in the readme file where this project was called'',
      ''This patch fixes a typo in the readme file where this project was called!'',
      ''http://mristin@some-domain.com/some/very/very/very/very/very/very/very/long/path/index.html'',
      ''[1]: http://mristin@some-domain.com/some/very/very/very/very/very/very/very/long/path/index.html''] ! 2) \<and>
      bodyLineError 2 ([''This patch fixes a typo in the readme file where this project was called'',
      ''This patch fixes a typo in the readme file where this project was called!'',
      ''http://mristin@some-domain.com/some/very/very/very/very/very/very/very/long/path/index.html'',
      ''[1]: http://mristin@some-domain.com/some/very/very/very/very/very/very/very/long/path/index.html''] ! 2) \<notin> set (checkBody ''Do something'' [''This patch fixes a typo in the readme file where this project was called'',
      ''This patch fixes a typo in the readme file where this project was called!'',
      ''http://mristin@some-domain.com/some/very/very/very/very/very/very/very/long/path/index.html'',
      ''[1]: http://mristin@some-domain.com/some/very/very/very/very/very/very/very/long/path/index.html''])) \<and>
   (3 < length [''This patch fixes a typo in the readme file where this project was called'',
      ''This patch fixes a typo in the readme file where this project was called!'',
      ''http://mristin@some-domain.com/some/very/very/very/very/very/very/very/long/path/index.html'',
      ''[1]: http://mristin@some-domain.com/some/very/very/very/very/very/very/very/long/path/index.html''] \<and> length ([''This patch fixes a typo in the readme file where this project was called'',
      ''This patch fixes a typo in the readme file where this project was called!'',
      ''http://mristin@some-domain.com/some/very/very/very/very/very/very/very/long/path/index.html'',
      ''[1]: http://mristin@some-domain.com/some/very/very/very/very/very/very/very/long/path/index.html''] ! 3) = 96 \<and> test linkDefinitionRe ([''This patch fixes a typo in the readme file where this project was called'',
      ''This patch fixes a typo in the readme file where this project was called!'',
      ''http://mristin@some-domain.com/some/very/very/very/very/very/very/very/long/path/index.html'',
      ''[1]: http://mristin@some-domain.com/some/very/very/very/very/very/very/very/long/path/index.html''] ! 3) \<and>
      bodyLineError 3 ([''This patch fixes a typo in the readme file where this project was called'',
      ''This patch fixes a typo in the readme file where this project was called!'',
      ''http://mristin@some-domain.com/some/very/very/very/very/very/very/very/long/path/index.html'',
      ''[1]: http://mristin@some-domain.com/some/very/very/very/very/very/very/very/long/path/index.html''] ! 3) \<notin> set (checkBody ''Do something'' [''This patch fixes a typo in the readme file where this project was called'',
      ''This patch fixes a typo in the readme file where this project was called!'',
      ''http://mristin@some-domain.com/some/very/very/very/very/very/very/very/long/path/index.html'',
      ''[1]: http://mristin@some-domain.com/some/very/very/very/very/very/very/very/long/path/index.html'']))"
proof -
  let ?b = "[''This patch fixes a typo in the readme file where this project was called'',
      ''This patch fixes a typo in the readme file where this project was called!'',
      ''http://mristin@some-domain.com/some/very/very/very/very/very/very/very/long/path/index.html'',
      ''[1]: http://mristin@some-domain.com/some/very/very/very/very/very/very/very/long/path/index.html'']"
  have h1: "?b \<noteq> []" by simp
  have h2: "\<not> (length ?b = 1 \<and> trim (?b ! 0) = [])" by simp
  have e: "checkBody ''Do something'' ?b = [''The line 4 of the message (line 2 of the body) exceeds the limit of 72 characters. '' @
      ''The line contains 73 characters: '' @ [CHR 0x22] @
      ''This patch fixes a typo in the readme file where this project was called!'' @ [CHR 0x22] @ ''.'']" by code_simp
  have e1: "bodyLineError 1 (?b ! 1) = ''The line 4 of the message (line 2 of the body) exceeds the limit of 72 characters. '' @
      ''The line contains 73 characters: '' @ [CHR 0x22] @
      ''This patch fixes a typo in the readme file where this project was called!'' @ [CHR 0x22] @ ''.''" by code_simp
  have i0: "0 < length ?b" and i1: "1 < length ?b" and i2: "2 < length ?b" and i3: "3 < length ?b"
    by simp_all
  have c0: "length (?b ! 0) = 72" by code_simp
  have n0: "\<not> (\<not> test urlLineRe (?b ! 0) \<and> \<not> test linkDefinitionRe (?b ! 0) \<and>
      72 < length (?b ! 0))" by code_simp
  have c1: "length (?b ! 1) = 73" by code_simp
  have c1': "\<not> test urlLineRe (?b ! 1)" "\<not> test linkDefinitionRe (?b ! 1)" by code_simp+
  have p1: "\<not> test urlLineRe (?b ! 1) \<and> \<not> test linkDefinitionRe (?b ! 1) \<and>
      72 < length (?b ! 1)" by code_simp
  have c2: "length (?b ! 2) = 91" by code_simp
  have c2': "test urlLineRe (?b ! 2)" by code_simp
  have n2: "\<not> (\<not> test urlLineRe (?b ! 2) \<and> \<not> test linkDefinitionRe (?b ! 2) \<and>
      72 < length (?b ! 2))" by code_simp
  have c3: "length (?b ! 3) = 96" by code_simp
  have c3': "test linkDefinitionRe (?b ! 3)" by code_simp
  have n3: "\<not> (\<not> test urlLineRe (?b ! 3) \<and> \<not> test linkDefinitionRe (?b ! 3) \<and>
      72 < length (?b ! 3))" by code_simp
  note per = C5_body_line_length[OF h1 h2, of "''Do something''", THEN conjunct2,
      THEN conjunct1, rule_format, THEN conjunct2]
  have r0: "bodyLineError 0 (?b ! 0) \<notin> set (checkBody ''Do something'' ?b)"
    using per[OF i0] n0 by (rule ssubst)
  have r1: "bodyLineError 1 (?b ! 1) \<in> set (checkBody ''Do something'' ?b)"
    using per[OF i1] p1 by (rule iffD2)
  have r2: "bodyLineError 2 (?b ! 2) \<notin> set (checkBody ''Do something'' ?b)"
    using per[OF i2] n2 by (rule ssubst)
  have r3: "bodyLineError 3 (?b ! 3) \<notin> set (checkBody ''Do something'' ?b)"
    using per[OF i3] n3 by (rule ssubst)
  show ?thesis
    by (intro conjI h1 h2 e e1 i0 i1 i2 i3 c0 c1 c1' c2 c2' c3 c3' r0 r1 r2 r3)
qed



text \<open>
  C2. The subject check strips the hash-code suffix and tests the length of the stripped
  subject against 50, but the error it then pushes cites the length of the subject as it
  was given, suffix included, next to the JSON form of the stripped subject. For the
  60-character subject below, whose stripped form has 54 characters, the error says
  "got: 60", in the subject check and in \<open>check\<close> on a message with that subject. A
  55-character subject whose stripped form has 49 characters gets no length error.
\<close>

theorem C2_length_error_cites_unstripped_length:
  "length ''Unify all license files to the LICENSE.txt naming rule (#43)'' = 60 \<and>
   replace suffixHashCodeRe ''Unify all license files to the LICENSE.txt naming rule (#43)'' = ''Unify all license files to the LICENSE.txt naming rule'' \<and>
   length ''Unify all license files to the LICENSE.txt naming rule'' = 54 \<and>
   checkSubject {''unify''} ''Unify all license files to the LICENSE.txt naming rule (#43)'' [] =
     Inr [''The subject exceeds the limit of 50 characters (got: 60, JSONified: '' @
          [CHR 0x22] @ ''Unify all license files to the LICENSE.txt naming rule'' @ [CHR 0x22] @ '')''] \<and>
   check {''unify''} (''Unify all license files to the LICENSE.txt naming rule (#43)'' @
       [CHR 0x0A, CHR 0x0A] @ ''The license files were named inconsistently.'') [] False =
     Inr [''The subject exceeds the limit of 50 characters (got: 60, JSONified: '' @
          [CHR 0x22] @ ''Unify all license files to the LICENSE.txt naming rule'' @ [CHR 0x22] @
          '')''] \<and>
   length ''Unify all license files to the LICENSE.txt naming (#43)'' = 55 \<and>
   replace suffixHashCodeRe ''Unify all license files to the LICENSE.txt naming (#43)'' = ''Unify all license files to the LICENSE.txt naming'' \<and>
   checkSubject {''unify''} ''Unify all license files to the LICENSE.txt naming (#43)'' [] = Inr []"
  by code_simp

end
